theory Spec2Isabelle
  imports Main
begin

section \<open>The description model\<close>

text \<open>
  A json-zod document is plain JSON data.  The resolver classifies every node at run time
  (\<^verbatim>\<open>typeof\<close>, \<^verbatim>\<open>Array.isArray\<close>, the \<^verbatim>\<open>_is\<close> and \<^verbatim>\<open>_schema\<close> discriminators), so
  the model keeps the data untyped.  An object is one that \<^verbatim>\<open>JSON.parse\<close> or an object
  literal builds: its prototype is \<^verbatim>\<open>Object.prototype\<close>, and it is given by the list of
  its own enumerable properties in enumeration order.  Numbers are the integers among
  JavaScript's numbers; strings are lists of code units below 256.
\<close>

datatype json =
    JNull
  | JBool bool
  | JNum int
  | JStr string
  | JArr "json list"
  | JObj "(string \<times> json) list"

text \<open>\<^verbatim>\<open>ZodJsonRoot\<close>: \<^verbatim>\<open>{ definitions?: Record<string, ZodJson>, schema: ZodJson | ZodJsonRef }\<close>.\<close>

record ZodJsonRoot =
  definitions :: "(string \<times> json) list option"
  schema :: json

text \<open>
  What \<^verbatim>\<open>parseNode\<close> returns (its TypeScript type is \<^verbatim>\<open>any\<close>): a JavaScript value.
  \<^item> \<open>VObj proto props\<close> is a plain object with own properties \<open>props\<close>; \<open>proto\<close> is
    \<open>None\<close> while its prototype is still \<^verbatim>\<open>Object.prototype\<close> and \<open>Some p\<close> once it has
    been replaced by \<open>p\<close>;
  \<^item> \<open>VFunction arg body\<close> is the callable built by \<^verbatim>\<open>new Function(arg, body)\<close>;
  \<^item> \<open>VLazy h refId\<close> is the object returned by the \<open>h\<close>-th call of \<^verbatim>\<open>z.lazy\<close> in this
    resolve call, whose thunk has captured \<open>refId\<close>; \<open>h\<close> is its identity;
  \<^item> \<open>VInst v\<close> is an instance \<open>v\<close> built by the validator library;
  \<^item> \<open>VBuiltin name\<close> is the function \<^verbatim>\<open>Object.prototype[name]\<close>.
\<close>

datatype 'v jsval =
    VUndefined
  | VNull
  | VBool bool
  | VNum int
  | VStr string
  | VArr "'v jsval list"
  | VObj "'v jsval option" "(string \<times> 'v jsval) list"
  | VFunction string string
  | VLazy nat string
  | VInst 'v
  | VBuiltin string

text \<open>
  Every \<^verbatim>\<open>throw new Error(...)\<close> of the source, under the name the specification's taxonomy
  gives it, with the values its message interpolates; \<open>thrown_message\<close> is the text
  thrown.
  \<open>OutsideModel\<close> is no error of the source: it marks a run that leaves the modelled
  fragment of JavaScript, where what the source does rests on implicit coercion, on object
  identity or on the properties of a foreign object.  That is the case when a field that the
  source reads without a run-time check holds a value outside its declared type (the
  \<^verbatim>\<open>id\<close> of a reference or the \<^verbatim>\<open>code\<close> of a function is not a string, \<^verbatim>\<open>params\<close> does
  not parse to an array, an entry of \<^verbatim>\<open>tail\<close> is not an array that starts with a string),
  and when a property is assigned to an object whose prototype has been replaced.
\<close>

datatype error =
    UnknownDefinition string
  | CachedReferenceInvariantViolation string
  | UnresolvedDefinitionsContainer string
  | FunctionCompileError string string
  | InvalidMethod string
  | UnknownMethod string
  | UnknownTailMethod string string
  | OutsideModel

fun thrown_message :: "error \<Rightarrow> string" where
  \<open>thrown_message (UnknownDefinition refId) =
     ''[json-zod] Definition not found for ref: "'' @ refId @ ''"''\<close>
| \<open>thrown_message (CachedReferenceInvariantViolation refId) =
     ''[json-zod] Cached definition is unexpectedly undefined for ref: "'' @ refId @ ''"''\<close>
| \<open>thrown_message (UnresolvedDefinitionsContainer refId) =
     ''[json-zod] Definitions are undefined when resolving ref: "'' @ refId @ ''"''\<close>
| \<open>thrown_message (FunctionCompileError code reason) =
     ''[json-zod] Failed to parse function code: "'' @ code @ ''". Error: '' @ reason\<close>
| \<open>thrown_message (InvalidMethod type) =
     ''[json-zod] Invalid method type: expected string, got '' @ type\<close>
| \<open>thrown_message (UnknownMethod path) = ''[json-zod] Unknown Zod method: "z.'' @ path @ ''"''\<close>
| \<open>thrown_message (UnknownTailMethod name path) =
     ''[json-zod] Unknown Zod tail method: ".'' @ name @ ''()" on "z.'' @ path @ ''"''\<close>
| \<open>thrown_message OutsideModel = []\<close>

section \<open>JavaScript primitives used by the resolver\<close>

fun truthy :: "json \<Rightarrow> bool" where
  "truthy JNull = False"
| "truthy (JBool b) = b"
| "truthy (JNum n) = (n \<noteq> 0)"
| "truthy (JStr s) = (s \<noteq> [])"
| "truthy (JArr xs) = True"
| "truthy (JObj props) = True"

text \<open>\<^verbatim>\<open>typeof x\<close> for a property read that found \<open>x\<close> (\<open>None\<close>: the property is missing).\<close>

fun typeof :: "json option \<Rightarrow> string" where
  "typeof None = ''undefined''"
| "typeof (Some JNull) = ''object''"
| "typeof (Some (JBool b)) = ''boolean''"
| "typeof (Some (JNum n)) = ''number''"
| "typeof (Some (JStr s)) = ''string''"
| "typeof (Some (JArr xs)) = ''object''"
| "typeof (Some (JObj props)) = ''object''"

text \<open>
  The properties every plain object inherits from \<^verbatim>\<open>Object.prototype\<close>.  All of them are
  functions, except the accessor \<^verbatim>\<open>__proto__\<close>, which reads as \<^verbatim>\<open>Object.prototype\<close>
  itself; all are truthy and none is enumerable.
\<close>

definition objectPrototypeFunctions :: "string list" where
  "objectPrototypeFunctions =
     [''constructor'', ''hasOwnProperty'', ''isPrototypeOf'', ''propertyIsEnumerable'',
      ''toLocaleString'', ''toString'', ''valueOf'', ''__defineGetter__'',
      ''__defineSetter__'', ''__lookupGetter__'', ''__lookupSetter__'']"

text \<open>The outcome of the property read \<^verbatim>\<open>obj[key]\<close> on a plain object.\<close>

datatype property = Own json | Inherited | Missing

definition js_get :: "(string \<times> json) list \<Rightarrow> string \<Rightarrow> property" where
  "js_get props key =
     (case map_of props key of
        Some v \<Rightarrow> Own v
      | None \<Rightarrow>
          if key = ''__proto__'' \<or> key \<in> set objectPrototypeFunctions then Inherited
          else Missing)"

text \<open>\<^verbatim>\<open>!root.definitions || !root.definitions[refId]\<close>, negated.\<close>

definition definitionFound :: "ZodJsonRoot \<Rightarrow> string \<Rightarrow> bool" where
  "definitionFound root refId =
     (case definitions root of
        None \<Rightarrow> False
      | Some defs \<Rightarrow>
          (case js_get defs refId of
             Own v \<Rightarrow> truthy v
           | Inherited \<Rightarrow> True
           | Missing \<Rightarrow> False))"

subsection \<open>Own property keys and assignment\<close>

text \<open>
  An array index is the canonical decimal form of an integer below \<open>2^32 - 1\<close>.  An object
  enumerates its array-index keys first, in ascending order, then its other string keys in
  the order of their creation.
\<close>

definition code_unit :: "char \<Rightarrow> nat" where
  "code_unit c = of_char c"

definition is_digit :: "char \<Rightarrow> bool" where
  "is_digit c = (48 \<le> code_unit c \<and> code_unit c \<le> 57)"

definition digit_value :: "char \<Rightarrow> nat" where
  "digit_value c = code_unit c - 48"

definition decimal_value :: "string \<Rightarrow> nat" where
  "decimal_value s = foldl (\<lambda>n c. 10 * n + digit_value c) 0 s"

definition array_index :: "string \<Rightarrow> nat option" where
  "array_index s =
     (if s \<noteq> [] \<and> list_all is_digit s \<and> (s = ''0'' \<or> hd s \<noteq> CHR ''0'')
         \<and> decimal_value s < 4294967295
      then Some (decimal_value s) else None)"

fun replace_value :: "string \<Rightarrow> 'a \<Rightarrow> (string \<times> 'a) list \<Rightarrow> (string \<times> 'a) list" where
  "replace_value k v [] = []"
| "replace_value k v ((k', v') # props) =
     (if k' = k then (k, v) # props else (k', v') # replace_value k v props)"

fun insert_index :: "nat \<Rightarrow> string \<Rightarrow> 'a \<Rightarrow> (string \<times> 'a) list \<Rightarrow> (string \<times> 'a) list" where
  "insert_index n k v [] = [(k, v)]"
| "insert_index n k v ((k', v') # props) =
     (case array_index k' of
        Some m \<Rightarrow>
          if m < n then (k', v') # insert_index n k v props
          else (k, v) # (k', v') # props
      | None \<Rightarrow> (k, v) # (k', v') # props)"

text \<open>Creating or overwriting the own data property \<open>k\<close>.\<close>

definition define_own :: "string \<Rightarrow> 'a \<Rightarrow> (string \<times> 'a) list \<Rightarrow> (string \<times> 'a) list" where
  "define_own k v props =
     (if k \<in> fst ` set props then replace_value k v props
      else (case array_index k of
              Some n \<Rightarrow> insert_index n k v props
            | None \<Rightarrow> props @ [(k, v)]))"

text \<open>
  \<^verbatim>\<open>result[key] = value\<close> on the object \<^verbatim>\<open>result\<close> that started as \<^verbatim>\<open>{}\<close>.  The key
  \<^verbatim>\<open>__proto__\<close> reaches the setter inherited from \<^verbatim>\<open>Object.prototype\<close>: an object or
  \<^verbatim>\<open>null\<close> becomes the prototype of \<^verbatim>\<open>result\<close>, any other value is ignored, and in
  neither case does \<^verbatim>\<open>result\<close> gain an own property.  Every other key defines an own
  property.  Once the prototype has been replaced, what a further assignment does depends on
  the new prototype chain and is outside the model.
\<close>

fun is_object :: "'v jsval \<Rightarrow> bool" where
  "is_object (VArr vs) = True"
| "is_object (VObj proto props) = True"
| "is_object (VFunction a b) = True"
| "is_object (VLazy h i) = True"
| "is_object (VInst v) = True"
| "is_object (VBuiltin n) = True"
| "is_object v = False"

definition js_set ::
  "'v jsval option \<times> (string \<times> 'v jsval) list \<Rightarrow> string \<Rightarrow> 'v jsval
     \<Rightarrow> error + 'v jsval option \<times> (string \<times> 'v jsval) list" where
  "js_set result key v =
     (case result of (proto, props) \<Rightarrow>
        if proto \<noteq> None then Inl OutsideModel
        else if key = ''__proto__'' then
          (if is_object v \<or> v = VNull then Inr (Some v, props) else Inr (None, props))
        else Inr (None, define_own key v props))"

subsection \<open>The regular expression of the function branch\<close>

text \<open>
  \<^verbatim>\<open>/^(?:\s*async\s*)?(?:\s*function\s*)?\(?\s*([a-zA-Z0-9_$]+)\s*\)?\s*=>/\<close>, run as a
  backtracking matcher does.  A matcher maps a position (the capture so far and the rest of
  the input) to the positions after every way of matching, in the order in which
  backtracking tries them: a greedy quantifier tries the longest repetition first, an
  optional group is tried before it is skipped.  \<^verbatim>\<open>String.prototype.match\<close> returns the
  first.
\<close>

type_synonym position = "string option \<times> string"
type_synonym matcher = "position \<Rightarrow> position list"

definition is_space :: "char \<Rightarrow> bool" where
  \<comment> \<open>\<^verbatim>\<open>\s\<close> below 256: U+0009 to U+000D, U+0020, U+00A0\<close>
  "is_space c = ((9 \<le> code_unit c \<and> code_unit c \<le> 13) \<or> code_unit c = 32 \<or> code_unit c = 160)"

definition is_ident :: "char \<Rightarrow> bool" where
  \<comment> \<open>\<^verbatim>\<open>[a-zA-Z0-9_$]\<close>\<close>
  "is_ident c =
     ((97 \<le> code_unit c \<and> code_unit c \<le> 122) \<or> (65 \<le> code_unit c \<and> code_unit c \<le> 90)
      \<or> (48 \<le> code_unit c \<and> code_unit c \<le> 57) \<or> c = CHR ''_'' \<or> c = CHR ''$'')"

definition lit :: "string \<Rightarrow> matcher" where
  "lit w = (\<lambda>(cap, s). if take (length w) s = w then [(cap, drop (length w) s)] else [])"

definition star :: "(char \<Rightarrow> bool) \<Rightarrow> matcher" where
  "star P = (\<lambda>(cap, s). map (\<lambda>n. (cap, drop n s)) (rev [0 ..< Suc (length (takeWhile P s))]))"

definition capture_plus :: "(char \<Rightarrow> bool) \<Rightarrow> matcher" where
  "capture_plus P =
     (\<lambda>(cap, s). map (\<lambda>n. (Some (take n s), drop n s)) (rev [1 ..< Suc (length (takeWhile P s))]))"

definition opt :: "matcher \<Rightarrow> matcher" where
  "opt m = (\<lambda>p. m p @ [p])"

definition seq :: "matcher \<Rightarrow> matcher \<Rightarrow> matcher" where
  "seq m n = (\<lambda>p. concat (map n (m p)))"

definition arrow_regex :: matcher where
  "arrow_regex =
     seq (opt (seq (star is_space) (seq (lit ''async'') (star is_space))))
    (seq (opt (seq (star is_space) (seq (lit ''function'') (star is_space))))
    (seq (opt (lit ''(''))
    (seq (star is_space)
    (seq (capture_plus is_ident)
    (seq (star is_space)
    (seq (opt (lit '')''))
    (seq (star is_space)
         (lit ''=>''))))))))"

text \<open>\<^verbatim>\<open>code.match(...)?.[1]\<close>: the first capture group of the first match, if any.\<close>

definition argMatch :: "string \<Rightarrow> string option" where
  "argMatch code = (case arrow_regex (None, code) of [] \<Rightarrow> None | (cap, rest) # others \<Rightarrow> cap)"

text \<open>\<^verbatim>\<open>argMatch?.[1] ?? 'data'\<close>.\<close>

definition argName :: "string \<Rightarrow> string" where
  "argName code = (case argMatch code of Some name \<Rightarrow> name | None \<Rightarrow> ''data'')"

text \<open>The body handed to \<^verbatim>\<open>new Function\<close>: \<^verbatim>\<open>`return (${code})(${argName})`\<close>.\<close>

definition functionBody :: "string \<Rightarrow> string" where
  "functionBody code = ''return ('' @ code @ '')('' @ argName code @ '')''"

subsection \<open>The environment: validator library and script engine\<close>

text \<open>
  The validator library (zod) and the engine's \<^verbatim>\<open>Function\<close> constructor are not part of
  the repository; the resolver takes them as parameters.
  \<^item> \<open>z\<close> is the module object \<^verbatim>\<open>z\<close>: each member may be callable and has members of its
    own (\<^verbatim>\<open>z.string\<close>, \<^verbatim>\<open>z.coerce.string\<close>).  A base constructor takes the argument
    list and returns an instance.
  \<^item> \<open>member v name\<close> is the property \<^verbatim>\<open>v[name]\<close> of an instance when it is a function,
    already applied to \<open>v\<close> as \<^verbatim>\<open>this\<close>.
  \<^item> \<open>newFunction arg body\<close> is \<open>Some msg\<close> when \<^verbatim>\<open>new Function(arg, body)\<close> throws an
    error with message \<open>msg\<close>, and \<open>None\<close> when it returns the function.
  Constructors and chained operations are taken to return, as the library's contract has it,
  and not to run a thunk given to \<^verbatim>\<open>z.lazy\<close> while an instance is being built.  The
  section on library calls as effects gives the resolver for a library that does not keep to
  this.
\<close>

datatype 'c surface = Surface "'c option" "(string \<times> 'c surface) list"

record 'v env =
  z :: "('v jsval list \<Rightarrow> 'v) surface"
  member :: "'v \<Rightarrow> string \<Rightarrow> ('v jsval list \<Rightarrow> 'v) option"
  newFunction :: "string \<Rightarrow> string \<Rightarrow> string option"

text \<open>\<^verbatim>\<open>path.split('.')\<close>.\<close>

fun split_dot :: "string \<Rightarrow> string list" where
  "split_dot [] = [[]]"
| "split_dot (c # cs) =
     (if c = CHR ''.'' then [] # split_dot cs
      else (case split_dot cs of
              [] \<Rightarrow> [[c]]
            | part # parts \<Rightarrow> (c # part) # parts))"

text \<open>\<^verbatim>\<open>const get = (obj, path) => path.split('.').reduce((acc, part) => acc?.[part], obj)\<close>.\<close>

definition get :: "'c surface \<Rightarrow> string \<Rightarrow> 'c surface option" where
  "get obj path =
     foldl (\<lambda>acc part. case acc of
                          None \<Rightarrow> None
                        | Some (Surface call members) \<Rightarrow> map_of members part)
       (Some obj) (split_dot path)"

text \<open>\<^verbatim>\<open>typeof methodFn !== 'function'\<close> fails exactly when \<open>callable\<close> is \<open>None\<close>.\<close>

definition callable :: "'c surface option \<Rightarrow> 'c option" where
  "callable v = (case v of None \<Rightarrow> None | Some (Surface call members) \<Rightarrow> call)"

section \<open>The resolver\<close>

text \<open>
  \<^verbatim>\<open>definitionCache\<close> is the \<^verbatim>\<open>Map\<close> created by each call of \<^verbatim>\<open>fromZodJson\<close>;
  \<open>lazyCount\<close> counts the calls of \<^verbatim>\<open>z.lazy\<close> so far and names the next handle.
\<close>

record 'v resolver_state =
  definitionCache :: "string \<Rightarrow> 'v jsval option"
  lazyCount :: nat

type_synonym ('v, 'a) outcome = "(error + 'a) \<times> 'v resolver_state"

text \<open>\<^verbatim>\<open>node.map(item => parseNode(item))\<close>: left to right, the first exception ends it.\<close>

fun map_items ::
  "('a \<Rightarrow> 's \<Rightarrow> ('e + 'b) \<times> 's) \<Rightarrow> 'a list \<Rightarrow> 's \<Rightarrow> ('e + 'b list) \<times> 's" where
  "map_items f [] s = (Inr [], s)"
| "map_items f (x # xs) s =
     (case f x s of
        (Inl e, s') \<Rightarrow> (Inl e, s')
      | (Inr y, s') \<Rightarrow>
          (case map_items f xs s' of
             (Inl e, s'') \<Rightarrow> (Inl e, s'')
           | (Inr ys, s'') \<Rightarrow> (Inr (y # ys), s'')))"

text \<open>A \<^verbatim>\<open>for\<close> loop that updates one variable and that an exception leaves.\<close>

fun for_each ::
  "('a \<Rightarrow> 'r \<Rightarrow> 's \<Rightarrow> ('e + 'r) \<times> 's) \<Rightarrow> 'a list \<Rightarrow> 'r \<Rightarrow> 's \<Rightarrow> ('e + 'r) \<times> 's" where
  "for_each body [] r s = (Inr r, s)"
| "for_each body (x # xs) r s =
     (case body x r s of
        (Inl e, s') \<Rightarrow> (Inl e, s')
      | (Inr r', s') \<Rightarrow> for_each body xs r' s')"

text \<open>
  The argument list of a call: \<^verbatim>\<open>p ? parseNode(p) : []\<close>, then spread into the call
  (\<^verbatim>\<open>methodFn(...params)\<close>, \<^verbatim>\<open>tailMethodFn.apply(schema, parsedTailParams)\<close>).  The
  declared type of \<open>p\<close> is an array, whose parse is an array.
\<close>

fun spread :: "(error + 'v jsval) \<times> 's \<Rightarrow> (error + 'v jsval list) \<times> 's" where
  "spread (Inl e, s) = (Inl e, s)"
| "spread (Inr (VArr vs), s) = (Inr vs, s)"
| "spread (Inr v, s) = (Inl OutsideModel, s)"

definition arguments ::
  "(json \<Rightarrow> 's \<Rightarrow> (error + 'v jsval) \<times> 's) \<Rightarrow> json option \<Rightarrow> 's \<Rightarrow> (error + 'v jsval list) \<times> 's" where
  "arguments parse p s =
     (case p of
        None \<Rightarrow> (Inr [], s)
      | Some params \<Rightarrow> if truthy params then spread (parse params s) else (Inr [], s))"

text \<open>
  The discriminators: \<^verbatim>\<open>'_is' in node && node._is === 'ref'\<close>,
  \<^verbatim>\<open>'_is' in node && node._is === 'function'\<close> and
  \<^verbatim>\<open>'_schema' in node && node._schema === 'json-zod'\<close>.  \<^verbatim>\<open>Object.prototype\<close> has no
  member of these names, so each is a test of an own property.
\<close>

definition isRef :: "(string \<times> json) list \<Rightarrow> bool" where
  "isRef node = (map_of node ''_is'' = Some (JStr ''ref''))"

definition isFunction :: "(string \<times> json) list \<Rightarrow> bool" where
  "isFunction node = (map_of node ''_is'' = Some (JStr ''function''))"

definition isZodJson :: "(string \<times> json) list \<Rightarrow> bool" where
  "isZodJson node = (map_of node ''_schema'' = Some (JStr ''json-zod''))"

text \<open>
  Branch A, a reference (lines 65 to 96 of the source).  The existence check comes first;
  then a cached handle is returned as it is; otherwise \<^verbatim>\<open>z.lazy\<close> makes a new handle,
  which is stored in the cache and returned.  The thunk given to \<^verbatim>\<open>z.lazy\<close> is not run
  here: it is \<open>lazyThunk\<close> below.
\<close>

definition referenceBranch ::
  "ZodJsonRoot \<Rightarrow> (string \<times> json) list \<Rightarrow> 'v resolver_state \<Rightarrow> ('v, 'v jsval) outcome" where
  "referenceBranch root node st =
     (case map_of node ''id'' of
        Some (JStr refId) \<Rightarrow>
          if \<not> definitionFound root refId then (Inl (UnknownDefinition refId), st)
          else
            (case definitionCache st refId of
               Some cached \<Rightarrow>
                 if cached = VUndefined
                 then (Inl (CachedReferenceInvariantViolation refId), st)
                 else (Inr cached, st)
             | None \<Rightarrow>
                 let lazySchema = VLazy (lazyCount st) refId
                 in (Inr lazySchema,
                     st\<lparr>definitionCache := (definitionCache st)(refId \<mapsto> lazySchema),
                        lazyCount := Suc (lazyCount st)\<rparr>))
      | _ \<Rightarrow> (Inl OutsideModel, st))"

text \<open>Branch B, a function (lines 99 to 113).\<close>

definition functionBranch ::
  "'v env \<Rightarrow> (string \<times> json) list \<Rightarrow> 'v resolver_state \<Rightarrow> ('v, 'v jsval) outcome" where
  "functionBranch env node st =
     (case map_of node ''code'' of
        Some (JStr code) \<Rightarrow>
          (case newFunction env (argName code) (functionBody code) of
             None \<Rightarrow> (Inr (VFunction (argName code) (functionBody code)), st)
           | Some message \<Rightarrow> (Inl (FunctionCompileError code message), st))
      | _ \<Rightarrow> (Inl OutsideModel, st))"

text \<open>
  One round of the tail loop (lines 135 to 142): the entry is destructured into
  \<^verbatim>\<open>[tailMethodName, tailMethodParams]\<close>, the method is looked up on the current
  \<^verbatim>\<open>schema\<close>, then its parameters are parsed, then it is applied and its result becomes
  the current \<^verbatim>\<open>schema\<close>.
\<close>

definition tailStep ::
  "(json \<Rightarrow> 's \<Rightarrow> (error + 'v jsval) \<times> 's) \<Rightarrow> 'v env \<Rightarrow> string \<Rightarrow> json \<Rightarrow> 'v \<Rightarrow> 's
     \<Rightarrow> (error + 'v) \<times> 's" where
  "tailStep parse env method entry current s =
     (case entry of
        JArr (JStr tailMethodName # rest) \<Rightarrow>
          (case member env current tailMethodName of
             None \<Rightarrow> (Inl (UnknownTailMethod tailMethodName method), s)
           | Some tailMethodFn \<Rightarrow>
               (case arguments parse (case rest of [] \<Rightarrow> None | p # others \<Rightarrow> Some p) s of
                  (Inl e, s') \<Rightarrow> (Inl e, s')
                | (Inr parsedTailParams, s') \<Rightarrow> (Inr (tailMethodFn parsedTailParams), s')))
      | _ \<Rightarrow> (Inl OutsideModel, s))"

text \<open>One round of the \<^verbatim>\<open>for ... in\<close> loop of the last branch (lines 150 to 154).\<close>

definition assignProperty ::
  "(json \<Rightarrow> 's \<Rightarrow> (error + 'v jsval) \<times> 's) \<Rightarrow> string \<times> json
     \<Rightarrow> 'v jsval option \<times> (string \<times> 'v jsval) list \<Rightarrow> 's
     \<Rightarrow> (error + 'v jsval option \<times> (string \<times> 'v jsval) list) \<times> 's" where
  "assignProperty parse property result s =
     (case parse (snd property) s of
        (Inl e, s') \<Rightarrow> (Inl e, s')
      | (Inr v, s') \<Rightarrow>
          (case js_set result (fst property) v of
             Inl e \<Rightarrow> (Inl e, s')
           | Inr result' \<Rightarrow> (Inr result', s')))"

lemma map_items_cong [fundef_cong]:
  "xs = ys \<Longrightarrow> s = t \<Longrightarrow> (\<And>x u. x \<in> set ys \<Longrightarrow> f x u = g x u)
     \<Longrightarrow> map_items f xs s = map_items g ys t"
  by (induction ys arbitrary: xs s t) (auto split: prod.splits sum.splits)

lemma for_each_cong [fundef_cong]:
  "xs = ys \<Longrightarrow> r = r' \<Longrightarrow> s = t \<Longrightarrow> (\<And>x a u. x \<in> set ys \<Longrightarrow> body x a u = body' x a u)
     \<Longrightarrow> for_each body xs r s = for_each body' ys r' t"
  by (induction ys arbitrary: xs r r' s t) (auto split: prod.splits sum.splits)

lemma arguments_cong [fundef_cong]:
  "p = q \<Longrightarrow> s = t \<Longrightarrow> (\<And>params u. q = Some params \<Longrightarrow> f params u = g params u)
     \<Longrightarrow> arguments f p s = arguments g q t"
  by (auto simp: arguments_def split: option.splits)

lemma tailStep_cong [fundef_cong]:
  "entry = entry' \<Longrightarrow> current = current' \<Longrightarrow> s = t
     \<Longrightarrow> (\<And>name p others u. entry' = JArr (name # p # others) \<Longrightarrow> f p u = g p u)
     \<Longrightarrow> tailStep f env method entry current s = tailStep g env method entry' current' t"
  by (auto simp: tailStep_def arguments_def split: json.splits list.splits option.splits)

lemma assignProperty_cong [fundef_cong]:
  "property = property' \<Longrightarrow> result = result' \<Longrightarrow> s = t
     \<Longrightarrow> (\<And>u. f (snd property') u = g (snd property') u)
     \<Longrightarrow> assignProperty f property result s = assignProperty g property' result' t"
  by (simp add: assignProperty_def)

lemma size_member: "x \<in> set xs \<Longrightarrow> f x < Suc (size_list f xs)"
  by (induction xs) auto

lemma size_lookup:
  "map_of props k = Some v \<Longrightarrow> size v < Suc (size_list (size_prod (\<lambda>x. 0) size) props)"
  by (induction props) (auto split: if_splits)

lemma size_property:
  "property \<in> set props \<Longrightarrow> size (snd property) < Suc (size_list (size_prod (\<lambda>x. 0) size) props)"
  by (induction props) auto

lemma size_tail_param:
  assumes "map_of node ''tail'' = Some (JArr entries)"
    and "JArr (n # p # others) \<in> set entries"
  shows "size p < Suc (size_list (size_prod (\<lambda>x. 0) size) node)"
proof -
  have "size p < size (JArr (n # p # others))"
    by simp
  also have "\<dots> < Suc (size_list size entries)"
    using assms(2) by (rule size_member)
  also have "\<dots> = size (JArr entries)"
    by simp
  also have "\<dots> < Suc (size_list (size_prod (\<lambda>x. 0) size) node)"
    using assms(1) by (rule size_lookup)
  finally show ?thesis .
qed

text \<open>
  \<^verbatim>\<open>parseNode\<close> (lines 51 to 156), with the cache passed through.  The checks come in the
  order of the source: primitive values, arrays, \<^verbatim>\<open>_is: "ref"\<close>, \<^verbatim>\<open>_is: "function"\<close>,
  \<^verbatim>\<open>_schema: "json-zod"\<close>, and last any other object.
\<close>

function parseNode ::
  "'v env \<Rightarrow> ZodJsonRoot \<Rightarrow> json \<Rightarrow> 'v resolver_state \<Rightarrow> ('v, 'v jsval) outcome" where
  "parseNode env root JNull st = (Inr VNull, st)"
| "parseNode env root (JBool b) st = (Inr (VBool b), st)"
| "parseNode env root (JNum n) st = (Inr (VNum n), st)"
| "parseNode env root (JStr s) st = (Inr (VStr s), st)"
| "parseNode env root (JArr items) st =
     (case map_items (\<lambda>item. parseNode env root item) items st of
        (Inl e, st') \<Rightarrow> (Inl e, st')
      | (Inr vs, st') \<Rightarrow> (Inr (VArr vs), st'))"
| "parseNode env root (JObj node) st =
     (if isRef node then referenceBranch root node st
      else if isFunction node then functionBranch env node st
      else if isZodJson node then
        (case map_of node ''method'' of
           Some (JStr method) \<Rightarrow>
             (case callable (get (z env) method) of
                None \<Rightarrow> (Inl (UnknownMethod method), st)
              | Some methodFn \<Rightarrow>
                  (case arguments (\<lambda>params. parseNode env root params) (map_of node ''params'') st of
                     (Inl e, st') \<Rightarrow> (Inl e, st')
                   | (Inr params, st') \<Rightarrow>
                       (case map_of node ''tail'' of
                          Some (JArr tail) \<Rightarrow>
                            (case for_each (tailStep (\<lambda>p. parseNode env root p) env method)
                                    tail (methodFn params) st' of
                               (Inl e, st'') \<Rightarrow> (Inl e, st'')
                             | (Inr final, st'') \<Rightarrow> (Inr (VInst final), st''))
                        | _ \<Rightarrow> (Inr (VInst (methodFn params)), st'))))
         | other \<Rightarrow> (Inl (InvalidMethod (typeof other)), st))
      else
        (case for_each (assignProperty (\<lambda>child. parseNode env root child)) node (None, []) st of
           (Inl e, st') \<Rightarrow> (Inl e, st')
         | (Inr (proto, props), st') \<Rightarrow> (Inr (VObj proto props), st')))"
  by pat_completeness auto

termination
  apply (relation "measure (\<lambda>(env, root, node, st). size node)")
      apply simp
  subgoal by (simp add: size_member)
  subgoal by (auto dest: size_lookup)
  subgoal by (auto intro: size_tail_param)
  subgoal by (auto dest: size_property)
  done

text \<open>
  The thunk handed to \<^verbatim>\<open>z.lazy\<close> for \<open>refId\<close> (lines 84 to 93), run in the state the
  cache has when the library forces the handle.  An inherited member of
  \<^verbatim>\<open>Object.prototype\<close> is truthy and goes to \<^verbatim>\<open>parseNode\<close>, which hands a function back
  as it is and copies the enumerable own properties of \<^verbatim>\<open>Object.prototype\<close>, of which
  there are none, into a new object.
\<close>

definition lazyThunk ::
  "'v env \<Rightarrow> ZodJsonRoot \<Rightarrow> string \<Rightarrow> 'v resolver_state \<Rightarrow> ('v, 'v jsval) outcome" where
  "lazyThunk env root refId st =
     (case definitions root of
        None \<Rightarrow> (Inl (UnresolvedDefinitionsContainer refId), st)
      | Some defs \<Rightarrow>
          (case js_get defs refId of
             Own definition \<Rightarrow>
               if truthy definition then parseNode env root definition st
               else (Inl (UnknownDefinition refId), st)
           | Inherited \<Rightarrow>
               if refId = ''__proto__'' then (Inr (VObj None []), st)
               else (Inr (VBuiltin refId), st)
           | Missing \<Rightarrow> (Inl (UnknownDefinition refId), st)))"

text \<open>
  \<^verbatim>\<open>fromZodJson\<close> (lines 38 to 160): a new, empty cache, then \<^verbatim>\<open>parseNode(root.schema)\<close>.
  The model returns the final state of the cache as well, since the thunks of the handles
  returned keep using it.
\<close>

definition empty_state :: "'v resolver_state" where
  "empty_state = \<lparr>definitionCache = Map.empty, lazyCount = 0\<rparr>"

definition fromZodJson :: "'v env \<Rightarrow> ZodJsonRoot \<Rightarrow> ('v, 'v jsval) outcome" where
  "fromZodJson env root = parseNode env root (schema root) empty_state"

text \<open>
  \<^verbatim>\<open>toZodJson\<close> of the file that defines \<^verbatim>\<open>fromZodJson\<close> (lines 174 to 178): a single
  \<^verbatim>\<open>throw\<close>.
\<close>

datatype not_implemented = NotImplemented

definition toZodJson :: "'v \<Rightarrow> not_implemented + ZodJsonRoot" where
  "toZodJson schema_value = Inl NotImplemented"

text \<open>
  \<^verbatim>\<open>lib/index.ts\<close> exports a second \<^verbatim>\<open>toZodJson\<close>, that of \<^verbatim>\<open>lib/to-json-zod.ts\<close>.
  It reads of a schema, and of the schemas inside it, only \<^verbatim>\<open>_def.typeName\<close>,
  \<^verbatim>\<open>_def.type\<close>, \<^verbatim>\<open>_def.shape()\<close> and \<^verbatim>\<open>_def.innerType\<close>; \<open>ZodView\<close> holds these
  four, in this order.  The type name is \<open>None\<close> when \<^verbatim>\<open>_def.typeName\<close> is
  \<^verbatim>\<open>undefined\<close>; \<^verbatim>\<open>_def.type\<close> and \<^verbatim>\<open>_def.innerType\<close> are \<open>None\<close> when they are not a
  schema with a \<^verbatim>\<open>_def\<close>; the shape is \<open>None\<close> when \<^verbatim>\<open>_def.shape\<close> is not a function,
  and otherwise the list \<^verbatim>\<open>Object.entries(_def.shape())\<close>.  Which type names a schema carries
  is a matter of the library and of its version.
\<close>

datatype zod_view =
  ZodView "string option" "zod_view option" "(string \<times> zod_view) list option"
          "zod_view option"

text \<open>
  The \<^verbatim>\<open>throw\<close> of the \<^verbatim>\<open>default\<close> case, and the \<^verbatim>\<open>TypeError\<close> of the engine when
  \<^verbatim>\<open>_def\<close> is read of a part that is not there or \<^verbatim>\<open>shape\<close> is called and is not a
  function.
\<close>

datatype conversion_error = UnsupportedZodType "string option" | ConversionTypeError

fun conversion_message :: "conversion_error \<Rightarrow> string" where
  "conversion_message (UnsupportedZodType typeName) =
     ''[json-zod] toZodJson: Unsupported Zod type: ''
       @ (case typeName of None \<Rightarrow> ''undefined'' | Some name \<Rightarrow> name)"
| "conversion_message ConversionTypeError = ''TypeError''"

text \<open>
  One round of \<^verbatim>\<open>for (const [key, value] of Object.entries(...)) shape[key] =
  convertSchema(value)\<close>.  As in \<open>js_set\<close>, the assignment of the key \<^verbatim>\<open>__proto__\<close> sets
  the prototype of \<^verbatim>\<open>shape\<close> and adds no own property; the document keeps own properties
  only.
\<close>

definition assignShape ::
  "(zod_view \<Rightarrow> conversion_error + (string \<times> json) list) \<Rightarrow> string \<times> zod_view
     \<Rightarrow> (string \<times> json) list \<Rightarrow> unit \<Rightarrow> (conversion_error + (string \<times> json) list) \<times> unit" where
  "assignShape convert entry shape s =
     (case convert (snd entry) of
        Inl e \<Rightarrow> (Inl e, s)
      | Inr converted \<Rightarrow>
          (Inr (if fst entry = ''__proto__'' then shape
                else define_own (fst entry) (JObj converted) shape),
           s))"

lemma assignShape_cong [fundef_cong]:
  "entry = entry' \<Longrightarrow> acc = acc' \<Longrightarrow> s = t \<Longrightarrow> f (snd entry') = g (snd entry')
     \<Longrightarrow> assignShape f entry acc s = assignShape g entry' acc' t"
  by (simp add: assignShape_def)





section \<open>A sample library\<close>

text \<open>
  A small stand-in for the validator library, on which the resolver can be run on concrete
  documents.  \<open>SLazy h refId\<close> is a lazy handle used as a schema.  As in zod, an optional
  schema has no \<^verbatim>\<open>min\<close> or \<^verbatim>\<open>max\<close>.
\<close>

datatype sample =
    SString
  | SNumber
  | SMin int sample
  | SMax int sample
  | SOptional sample
  | SArray sample
  | SObject "(string \<times> sample) list"
  | SLazy nat string
  | SInvalid

fun as_schema :: "sample jsval \<Rightarrow> sample" where
  "as_schema (VInst s) = s"
| "as_schema (VLazy h refId) = SLazy h refId"
| "as_schema v = SInvalid"

fun sample_array :: "sample jsval list \<Rightarrow> sample" where
  "sample_array [v] = SArray (as_schema v)"
| "sample_array vs = SInvalid"

fun sample_object :: "sample jsval list \<Rightarrow> sample" where
  "sample_object [VObj proto props] = SObject (map (\<lambda>(k, v). (k, as_schema v)) props)"
| "sample_object vs = SInvalid"

fun sample_bound :: "(int \<Rightarrow> sample \<Rightarrow> sample) \<Rightarrow> sample \<Rightarrow> sample jsval list \<Rightarrow> sample" where
  "sample_bound bound s (VNum n # vs) = bound n s"
| "sample_bound bound s vs = SInvalid"

fun has_bounds :: "sample \<Rightarrow> bool" where
  "has_bounds SString = True"
| "has_bounds SNumber = True"
| "has_bounds (SMin n s) = True"
| "has_bounds (SMax n s) = True"
| "has_bounds (SArray s) = True"
| "has_bounds s = False"

definition sample_member :: "sample \<Rightarrow> string \<Rightarrow> (sample jsval list \<Rightarrow> sample) option" where
  "sample_member s name =
     (if name = ''optional'' then Some (\<lambda>vs. SOptional s)
      else if name = ''array'' then Some (\<lambda>vs. SArray s)
      else if name = ''min'' \<and> has_bounds s then Some (sample_bound SMin s)
      else if name = ''max'' \<and> has_bounds s then Some (sample_bound SMax s)
      else None)"

definition sample_z :: "(sample jsval list \<Rightarrow> sample) surface" where
  "sample_z =
     Surface None
       [(''string'', Surface (Some (\<lambda>vs. SString)) []),
        (''number'', Surface (Some (\<lambda>vs. SNumber)) []),
        (''array'', Surface (Some sample_array) []),
        (''object'', Surface (Some sample_object) []),
        (''coerce'', Surface None [(''string'', Surface (Some (\<lambda>vs. SString)) [])])]"

text \<open>The sample engine refuses a body that contains the character \<^verbatim>\<open>#\<close>.\<close>

definition sample_newFunction :: "string \<Rightarrow> string \<Rightarrow> string option" where
  "sample_newFunction arg body =
     (if CHR ''#'' \<in> set body then Some ''Invalid or unexpected token'' else None)"

definition sample_env :: "sample env" where
  "sample_env = \<lparr>z = sample_z, member = sample_member, newFunction = sample_newFunction\<rparr>"

text \<open>
  What a sample schema accepts.  Object schemas and lazy handles are not followed: here they
  accept nothing.
\<close>

fun accepts :: "sample \<Rightarrow> sample jsval \<Rightarrow> bool" where
  "accepts SString v = (case v of VStr s \<Rightarrow> True | _ \<Rightarrow> False)"
| "accepts SNumber v = (case v of VNum n \<Rightarrow> True | _ \<Rightarrow> False)"
| "accepts (SMin n s) v =
     (accepts s v \<and> (case v of VStr t \<Rightarrow> n \<le> int (length t) | VNum m \<Rightarrow> n \<le> m
                     | VArr vs \<Rightarrow> n \<le> int (length vs) | _ \<Rightarrow> True))"
| "accepts (SMax n s) v =
     (accepts s v \<and> (case v of VStr t \<Rightarrow> int (length t) \<le> n | VNum m \<Rightarrow> m \<le> n
                     | VArr vs \<Rightarrow> int (length vs) \<le> n | _ \<Rightarrow> True))"
| "accepts (SOptional s) v = (v = VUndefined \<or> accepts s v)"
| "accepts (SArray s) v = (case v of VArr vs \<Rightarrow> list_all (accepts s) vs | _ \<Rightarrow> False)"
| "accepts (SObject shape) v = False"
| "accepts (SLazy h refId) v = False"
| "accepts SInvalid v = False"

section \<open>Scalars\<close>

fun is_scalar :: "json \<Rightarrow> bool" where
  "is_scalar JNull = True"
| "is_scalar (JBool b) = True"
| "is_scalar (JNum n) = True"
| "is_scalar (JStr s) = True"
| "is_scalar (JArr items) = False"
| "is_scalar (JObj node) = False"

text \<open>The JavaScript value that a JSON scalar is.\<close>

fun scalar :: "json \<Rightarrow> 'v jsval" where
  "scalar JNull = VNull"
| "scalar (JBool b) = VBool b"
| "scalar (JNum n) = VNum n"
| "scalar (JStr s) = VStr s"
| "scalar (JArr items) = VUndefined"
| "scalar (JObj node) = VUndefined"

lemma map_items_scalars:
  "list_all is_scalar items \<Longrightarrow>
     map_items (\<lambda>item. parseNode env root item) items st = (Inr (map scalar items), st)"
proof (induction items)
  case Nil
  then show ?case by simp
next
  case (Cons item items)
  then have "parseNode env root item st = (Inr (scalar item), st)"
    by (cases item) simp_all
  with Cons show ?case by simp
qed

text \<open>
  C8.  A string, a number, a boolean and \<^verbatim>\<open>null\<close> are returned as they are, and the cache is
  left as it was; so a parameter list made of scalars reaches the call (of a base method or of
  a tail method) as the same list of values.
\<close>

theorem scalar_identity:
  "(is_scalar node \<longrightarrow> parseNode env root node st = (Inr (scalar node), st)) \<and>
   (list_all is_scalar params \<longrightarrow>
      arguments (\<lambda>p. parseNode env root p) (Some (JArr params)) st
        = (Inr (map scalar params), st))"
proof
  show "is_scalar node \<longrightarrow> parseNode env root node st = (Inr (scalar node), st)"
    by (cases node) simp_all
  show "list_all is_scalar params \<longrightarrow>
      arguments (\<lambda>p. parseNode env root p) (Some (JArr params)) st
        = (Inr (map scalar params), st)"
    by (simp add: arguments_def map_items_scalars)
qed

theorem scalar_identity_witness:
  "is_scalar (JStr ''hello'') \<and>
   parseNode sample_env \<lparr>definitions = None, schema = JNull\<rparr> (JStr ''hello'') empty_state
     = (Inr (VStr ''hello''), empty_state) \<and>
   list_all is_scalar [JNum 3, JNull, JBool True] \<and>
   arguments (\<lambda>p. parseNode sample_env \<lparr>definitions = None, schema = JNull\<rparr> p)
       (Some (JArr [JNum 3, JNull, JBool True])) empty_state
     = (Inr [VNum 3, VNull, VBool True], empty_state)"
  using scalar_identity [of "JStr ''hello''" sample_env "\<lparr>definitions = None, schema = JNull\<rparr>"
      empty_state "[JNum 3, JNull, JBool True]"]
  by simp

section \<open>The method of a node\<close>

text \<open>
  C5, as the code has it.  In a node (\<^verbatim>\<open>_schema: "json-zod"\<close>) whose \<^verbatim>\<open>method\<close> is not a
  string (it is missing, \<^verbatim>\<open>null\<close>, a boolean, a number, an array or an object) construction
  fails with \<open>InvalidMethod\<close>, which reports the \<^verbatim>\<open>typeof\<close> of what was found; the library
  is not consulted and the cache is untouched.  Every string passes this check, the empty
  string too: such a node fails with \<open>UnknownMethod\<close>, after the lookup, when the dotted path
  leads to no function of the library.
\<close>

theorem invalid_method:
  "\<not> isRef node \<and> \<not> isFunction node \<and> isZodJson node \<longrightarrow>
     ((\<forall>m. map_of node ''method'' \<noteq> Some (JStr m)) \<longrightarrow>
        parseNode env root (JObj node) st
          = (Inl (InvalidMethod (typeof (map_of node ''method''))), st)) \<and>
     (\<forall>m. map_of node ''method'' = Some (JStr m) \<and> callable (get (z env) m) = None \<longrightarrow>
        parseNode env root (JObj node) st = (Inl (UnknownMethod m), st))"
  by (auto split: option.splits json.splits)

theorem invalid_method_witness:
  "parseNode sample_env \<lparr>definitions = None, schema = JNull\<rparr>
      (JObj [(''_schema'', JStr ''json-zod''), (''method'', JNum 3)]) empty_state
     = (Inl (InvalidMethod ''number''), empty_state) \<and>
   parseNode sample_env \<lparr>definitions = None, schema = JNull\<rparr>
      (JObj [(''_schema'', JStr ''json-zod''), (''method'', JStr ''unknownMethod'')]) empty_state
     = (Inl (UnknownMethod ''unknownMethod''), empty_state)"
  using invalid_method [of "[(''_schema'', JStr ''json-zod''), (''method'', JNum 3)]"
      sample_env "\<lparr>definitions = None, schema = JNull\<rparr>" empty_state]
    invalid_method [of "[(''_schema'', JStr ''json-zod''), (''method'', JStr ''unknownMethod'')]"
      sample_env "\<lparr>definitions = None, schema = JNull\<rparr>" empty_state]
  by (simp add: isRef_def isFunction_def isZodJson_def sample_env_def sample_z_def get_def
      callable_def)

text \<open>
  C5 as stated fails for the empty string.  The empty string is a string: \<^verbatim>\<open>{ _schema: "json-zod", method: "" }\<close> gets past the
  \<^verbatim>\<open>typeof\<close> check, \<^verbatim>\<open>"".split('.')\<close> is \<^verbatim>\<open>[""]\<close>, the library has no member of that
  name, and the error is \<open>UnknownMethod\<close>, not \<open>InvalidMethod\<close>.
\<close>

theorem empty_method_counterexample:
  "parseNode sample_env \<lparr>definitions = None, schema = JNull\<rparr>
      (JObj [(''_schema'', JStr ''json-zod''), (''method'', JStr [])]) empty_state
     = (Inl (UnknownMethod []), empty_state)"
  by (simp add: isRef_def isFunction_def isZodJson_def sample_env_def sample_z_def get_def
      callable_def)

section \<open>Embedded functions\<close>

text \<open>
  \<open>recognises m L\<close>: from any position, the matcher \<open>m\<close> leaves the capture alone and
  consumes exactly the prefixes that belong to the language \<open>L\<close>.
\<close>

definition recognises :: "matcher \<Rightarrow> (string \<Rightarrow> bool) \<Rightarrow> bool" where
  "recognises m L = (\<forall>cap s. set (m (cap, s)) = {(cap, r) |u r. s = u @ r \<and> L u})"

lemma recognises_lit: "recognises (lit w) (\<lambda>u. u = w)"
proof -
  have "take (length w) s = w \<longleftrightarrow> (\<exists>r. s = w @ r)" for s
    by (metis append_eq_conv_conj append_take_drop_id)
  then show ?thesis
    by (auto simp: recognises_def lit_def)
qed

lemma takeWhile_prefix:
  "n \<le> length (takeWhile P s) \<Longrightarrow> list_all P (take n s)"
proof (induction s arbitrary: n)
  case Nil
  then show ?case by simp
next
  case (Cons c s)
  then show ?case by (cases n) (auto split: if_splits)
qed

lemma prefix_takeWhile:
  "list_all P u \<Longrightarrow> length u \<le> length (takeWhile P (u @ r))"
  by (induction u) auto

lemma repetitions:
  "{drop n s |n. k \<le> n \<and> n \<le> length (takeWhile P s)}
     = {r. \<exists>u. s = u @ r \<and> k \<le> length u \<and> list_all P u}"
proof (intro set_eqI iffI; clarify)
  fix n
  assume n: "k \<le> n" "n \<le> length (takeWhile P s)"
  then have "n \<le> length s"
    by (meson le_trans length_takeWhile_le)
  with n show "\<exists>u. s = u @ drop n s \<and> k \<le> length u \<and> list_all P u"
    by (intro exI [of _ "take n s"]) (simp add: takeWhile_prefix)
next
  fix r u
  assume "k \<le> length u" "list_all P u"
  then show "\<exists>n. r = drop n (u @ r) \<and> k \<le> n \<and> n \<le> length (takeWhile P (u @ r))"
    by (intro exI [of _ "length u"]) (simp add: prefix_takeWhile)
qed

lemma recognises_star: "recognises (star P) (list_all P)"
proof -
  have "set (star P (cap, s)) = (\<lambda>r. (cap, r)) ` {drop n s |n. 0 \<le> n \<and> n \<le> length (takeWhile P s)}"
    for cap s
    by (force simp: star_def less_Suc_eq_le simp del: upt_Suc)
  then show ?thesis
    unfolding recognises_def repetitions by auto
qed

lemma set_capture_plus:
  "set (capture_plus P (cap, s)) = {(Some u, r) |u r. s = u @ r \<and> u \<noteq> [] \<and> list_all P u}"
proof (intro set_eqI iffI; clarify)
  fix c r
  assume "(c, r) \<in> set (capture_plus P (cap, s))"
  then obtain n where n: "1 \<le> n" "n \<le> length (takeWhile P s)" "c = Some (take n s)" "r = drop n s"
    by (auto simp: capture_plus_def less_Suc_eq_le simp del: upt_Suc)
  then have "n \<le> length s"
    by (meson le_trans length_takeWhile_le)
  with n show "\<exists>u r'. (c, r) = (Some u, r') \<and> s = u @ r' \<and> u \<noteq> [] \<and> list_all P u"
    by (intro exI [of _ "take n s"] exI [of _ "drop n s"]) (auto simp: takeWhile_prefix)
next
  fix u r
  assume u: "u \<noteq> []" "list_all P u"
  then have "1 \<le> length u" "length u \<le> length (takeWhile P (u @ r))"
    by (simp_all add: prefix_takeWhile Suc_le_eq)
  then have "length u \<in> set (rev [1 ..< Suc (length (takeWhile P (u @ r)))])"
    by (simp del: upt_Suc)
  then have "(\<lambda>n. (Some (take n (u @ r)), drop n (u @ r))) (length u) \<in> set (capture_plus P (cap, u @ r))"
    unfolding capture_plus_def prod.case set_map by (rule imageI)
  then show "(Some u, r) \<in> set (capture_plus P (cap, u @ r))"
    by simp
qed

lemma recognises_opt: "recognises m L \<Longrightarrow> recognises (opt m) (\<lambda>u. u = [] \<or> L u)"
  by (auto simp: recognises_def opt_def)

lemma set_seq: "set (seq m n p) = (\<Union>q \<in> set (m p). set (n q))"
  by (simp add: seq_def)

lemma recognises_seq:
  assumes "recognises m L" and "recognises n M"
  shows "recognises (seq m n) (\<lambda>x. \<exists>u v. x = u @ v \<and> L u \<and> M v)"
  unfolding recognises_def
proof (intro allI set_eqI iffI)
  fix cap :: "string option" and s x
  assume "x \<in> set (seq m n (cap, s))"
  then obtain q where q: "q \<in> set (m (cap, s))" "x \<in> set (n q)"
    by (auto simp: set_seq)
  from q(1) assms(1) obtain u r where u: "q = (cap, r)" "s = u @ r" "L u"
    by (auto simp: recognises_def)
  from q(2) u(1) assms(2) obtain v r' where v: "x = (cap, r')" "r = v @ r'" "M v"
    by (auto simp: recognises_def)
  from u v show "x \<in> {(cap, r) |u r. s = u @ r \<and> (\<exists>ua v. u = ua @ v \<and> L ua \<and> M v)}"
    by auto
next
  fix cap :: "string option" and s x
  assume "x \<in> {(cap, r) |u r. s = u @ r \<and> (\<exists>ua v. u = ua @ v \<and> L ua \<and> M v)}"
  then obtain u v r where x: "x = (cap, r)" "s = (u @ v) @ r" "L u" "M v"
    by auto
  from x(2,3) assms(1) have "(cap, v @ r) \<in> set (m (cap, s))"
    by (auto simp: recognises_def)
  moreover from x(4) assms(2) have "(cap, r) \<in> set (n (cap, v @ r))"
    by (auto simp: recognises_def)
  ultimately show "x \<in> set (seq m n (cap, s))"
    unfolding x(1) set_seq by blast
qed

lemma set_seq_recognises:
  assumes "recognises m L"
  shows "set (seq m k (cap, s)) = (\<Union>(u, r) \<in> {(u, r). s = u @ r \<and> L u}. set (k (cap, r)))"
  using assms by (auto simp: set_seq recognises_def)


text \<open>
  The specification's words for the pattern: a single simple parameter name, optionally
  parenthesised and optionally preceded by an \<^verbatim>\<open>async\<close> and/or \<^verbatim>\<open>function\<close> marker,
  followed by an arrow.  \<open>leading_parameter code name\<close>: the code starts with this pattern
  around \<open>name\<close>.
\<close>

definition conc :: "(string \<Rightarrow> bool) \<Rightarrow> (string \<Rightarrow> bool) \<Rightarrow> string \<Rightarrow> bool" where
  "conc L M x = (\<exists>u v. x = u @ v \<and> L u \<and> M v)"

definition optional :: "(string \<Rightarrow> bool) \<Rightarrow> string \<Rightarrow> bool" where
  "optional L x = (x = [] \<or> L x)"

definition word :: "string \<Rightarrow> string \<Rightarrow> bool" where
  "word w x = (x = w)"

definition spaces :: "string \<Rightarrow> bool" where
  "spaces x = list_all is_space x"

definition marker :: "string \<Rightarrow> string \<Rightarrow> bool" where
  "marker w = optional (conc spaces (conc (word w) spaces))"

definition before_name :: "string \<Rightarrow> bool" where
  "before_name = conc (marker ''async'') (conc (marker ''function'') (conc (optional (word ''('')) spaces))"

definition after_name :: "string \<Rightarrow> bool" where
  "after_name = conc spaces (conc (optional (word '')'')) (conc spaces (word ''=>'')))"

definition leading_parameter :: "string \<Rightarrow> string \<Rightarrow> bool" where
  "leading_parameter code name =
     (\<exists>pre post rest. code = pre @ name @ post @ rest \<and> before_name pre
        \<and> name \<noteq> [] \<and> list_all is_ident name \<and> after_name post)"

lemma recognises_conc:
  "recognises m L \<Longrightarrow> recognises n M \<Longrightarrow> recognises (seq m n) (conc L M)"
  using recognises_seq [of m L n M] by (simp add: conc_def [abs_def])

lemma recognises_optional: "recognises m L \<Longrightarrow> recognises (opt m) (optional L)"
  using recognises_opt [of m L] by (simp add: optional_def [abs_def])

lemma recognises_word: "recognises (lit w) (word w)"
  using recognises_lit [of w] by (simp add: word_def [abs_def])

lemma recognises_spaces: "recognises (star is_space) spaces"
  using recognises_star [of is_space] by (simp add: spaces_def [abs_def])

lemma recognises_marker:
  "recognises (opt (seq (star is_space) (seq (lit w) (star is_space)))) (marker w)"
  unfolding marker_def
  by (intro recognises_optional recognises_conc recognises_word recognises_spaces)

lemma seq_assoc: "seq (seq a b) c = seq a (seq b c)"
proof
  fix p
  have "concat (map c (concat (map b qs))) = concat (map (\<lambda>q. concat (map c (b q))) qs)" for qs
    by (induction qs) simp_all
  then show "seq (seq a b) c p = seq a (seq b c) p"
    by (simp add: seq_def)
qed

definition regex_before :: matcher where
  "regex_before =
     seq (opt (seq (star is_space) (seq (lit ''async'') (star is_space))))
    (seq (opt (seq (star is_space) (seq (lit ''function'') (star is_space))))
    (seq (opt (lit ''(''))
         (star is_space)))"

definition regex_after :: matcher where
  "regex_after =
     seq (star is_space) (seq (opt (lit '')'')) (seq (star is_space) (lit ''=>'')))"

lemma arrow_regex_parts:
  "arrow_regex = seq regex_before (seq (capture_plus is_ident) regex_after)"
  by (simp add: arrow_regex_def regex_before_def regex_after_def seq_assoc)

lemma recognises_before: "recognises regex_before before_name"
  unfolding regex_before_def before_name_def
  by (intro recognises_conc recognises_marker recognises_optional recognises_word recognises_spaces)

lemma recognises_after: "recognises regex_after after_name"
  unfolding regex_after_def after_name_def
  by (intro recognises_conc recognises_optional recognises_word recognises_spaces)

lemma set_arrow_regex:
  "set (arrow_regex (None, code))
     = {(Some name, rest) |name rest. \<exists>pre post. code = pre @ name @ post @ rest \<and> before_name pre
          \<and> name \<noteq> [] \<and> list_all is_ident name \<and> after_name post}"
proof -
  have after: "set (seq (capture_plus is_ident) regex_after (cap, s))
      = {(Some name, rest) |name rest. \<exists>post. s = name @ post @ rest
           \<and> name \<noteq> [] \<and> list_all is_ident name \<and> after_name post}" for cap s
    using recognises_after unfolding set_seq set_capture_plus recognises_def by fastforce
  show ?thesis
    unfolding arrow_regex_parts set_seq_recognises [OF recognises_before] after
    by fastforce
qed

lemma argMatch_Some:
  "argMatch code = Some name \<Longrightarrow> leading_parameter code name"
proof -
  assume a: "argMatch code = Some name"
  then obtain rest others where "arrow_regex (None, code) = (Some name, rest) # others"
    by (auto simp: argMatch_def split: list.splits)
  then have "(Some name, rest) \<in> set (arrow_regex (None, code))"
    by simp
  then show ?thesis
    unfolding set_arrow_regex leading_parameter_def by blast
qed

lemma argMatch_None:
  "argMatch code = None \<longleftrightarrow> (\<forall>name. \<not> leading_parameter code name)"
proof
  assume "argMatch code = None"
  then have "arrow_regex (None, code) = [] \<or> (\<exists>rest others. arrow_regex (None, code) = (None, rest) # others)"
    by (auto simp: argMatch_def split: list.splits)
  moreover have "(None, rest) \<notin> set (arrow_regex (None, code))" for rest
    unfolding set_arrow_regex by simp
  ultimately have "set (arrow_regex (None, code)) = {}"
    by (metis list.set_intros(1) set_empty)
  then show "\<forall>name. \<not> leading_parameter code name"
    unfolding set_arrow_regex leading_parameter_def by blast
next
  assume "\<forall>name. \<not> leading_parameter code name"
  then have "set (arrow_regex (None, code)) = {}"
    unfolding set_arrow_regex leading_parameter_def by blast
  then show "argMatch code = None"
    by (simp add: argMatch_def)
qed


lemmas regex_eval = argMatch_def arrow_regex_def seq_def opt_def lit_def star_def capture_plus_def
  is_space_def is_ident_def code_unit_def


text \<open>
  C9.  A function node with source text \<open>code\<close> is compiled by
  \<^verbatim>\<open>new Function(argName, `return (${code})(${argName})`)\<close>; when that throws, the error is
  \<open>FunctionCompileError\<close> and carries \<open>code\<close>.  The parameter name is found by syntactic
  inspection: whenever the regular expression matches, the name it captures is the name of
  the leading parameter pattern of the code; it matches whenever the code starts with such a
  pattern; and when the code does not, the name is the fallback \<^verbatim>\<open>data\<close>.
\<close>

theorem function_branch:
  "(isFunction node \<and> map_of node ''code'' = Some (JStr code) \<longrightarrow>
      parseNode env root (JObj node) st =
        (case newFunction env (argName code) (functionBody code) of
           None \<Rightarrow> (Inr (VFunction (argName code) (functionBody code)), st)
         | Some message \<Rightarrow> (Inl (FunctionCompileError code message), st))) \<and>
   (\<forall>name. argMatch code = Some name \<longrightarrow> leading_parameter code name \<and> argName code = name) \<and>
   ((\<exists>name. leading_parameter code name) \<longrightarrow> argMatch code \<noteq> None) \<and>
   ((\<forall>name. \<not> leading_parameter code name) \<longrightarrow> argName code = ''data'')"
proof (intro conjI impI allI)
  assume "isFunction node \<and> map_of node ''code'' = Some (JStr code)"
  then show "parseNode env root (JObj node) st =
        (case newFunction env (argName code) (functionBody code) of
           None \<Rightarrow> (Inr (VFunction (argName code) (functionBody code)), st)
         | Some message \<Rightarrow> (Inl (FunctionCompileError code message), st))"
    by (simp add: isRef_def isFunction_def functionBranch_def)
next
  fix name
  assume "argMatch code = Some name"
  then show "leading_parameter code name" and "argName code = name"
    by (simp_all add: argMatch_Some argName_def)
next
  assume "\<exists>name. leading_parameter code name"
  then show "argMatch code \<noteq> None"
    by (simp add: argMatch_None)
next
  assume "\<forall>name. \<not> leading_parameter code name"
  then have "argMatch code = None"
    by (simp add: argMatch_None)
  then show "argName code = ''data''"
    by (simp add: argName_def)
qed

theorem function_branch_witness:
  "parseNode sample_env \<lparr>definitions = None, schema = JNull\<rparr>
      (JObj [(''_is'', JStr ''function''), (''code'', JStr ''val => val.toUpperCase()'')]) empty_state
     = (Inr (VFunction ''val'' ''return (val => val.toUpperCase())(val)''), empty_state) \<and>
   leading_parameter ''val => val.toUpperCase()'' ''val'' \<and>
   parseNode sample_env \<lparr>definitions = None, schema = JNull\<rparr>
      (JObj [(''_is'', JStr ''function''), (''code'', JStr ''(x) => #'')]) empty_state
     = (Inl (FunctionCompileError ''(x) => #'' ''Invalid or unexpected token''), empty_state) \<and>
   (\<forall>name. \<not> leading_parameter ''function (x) { return x }'' name) \<and>
   argName ''function (x) { return x }'' = ''data''"
proof -
  have val: "argMatch ''val => val.toUpperCase()'' = Some ''val''"
    by (simp add: regex_eval)
  have x: "argMatch ''(x) => #'' = Some ''x''"
    by (simp add: regex_eval)
  have none: "argMatch ''function (x) { return x }'' = None"
    by (simp add: regex_eval)
  show ?thesis
    using function_branch [of "[(''_is'', JStr ''function''), (''code'', JStr ''val => val.toUpperCase()'')]"
        "''val => val.toUpperCase()''" sample_env "\<lparr>definitions = None, schema = JNull\<rparr>" empty_state]
      function_branch [of "[(''_is'', JStr ''function''), (''code'', JStr ''(x) => #'')]"
        "''(x) => #''" sample_env "\<lparr>definitions = None, schema = JNull\<rparr>" empty_state]
      function_branch [of "[]" "''function (x) { return x }''" sample_env
        "\<lparr>definitions = None, schema = JNull\<rparr>" empty_state]
    by (simp add: val x none isFunction_def argName_def functionBody_def sample_env_def
        sample_newFunction_def)
qed

section \<open>Chained operations\<close>

lemma for_each_append:
  "for_each body (xs @ ys) r s =
     (case for_each body xs r s of
        (Inl e, s') \<Rightarrow> (Inl e, s')
      | (Inr r', s') \<Rightarrow> for_each body ys r' s')"
  by (induction xs arbitrary: r s) (auto split: prod.splits sum.splits)

text \<open>\<^verbatim>\<open>{ _schema: "json-zod", method: "string", tail: [...] }\<close>.\<close>

definition string_with_tail :: "json list \<Rightarrow> json" where
  "string_with_tail tail =
     JObj [(''_schema'', JStr ''json-zod''), (''method'', JStr ''string''), (''tail'', JArr tail)]"

lemmas sample_eval = isRef_def isFunction_def isZodJson_def sample_env_def sample_z_def get_def
  callable_def arguments_def tailStep_def sample_member_def

text \<open>
  C3.  The tail of a node is applied strictly in the declared order.  The loop starts from the
  result of the base constructor; running it over \<open>earlier @ later\<close> is running it over
  \<open>earlier\<close> and then, from the instance and the cache so reached, over \<open>later\<close>, unless
  an error ended it; and one round looks the method up on the current instance (its absence is
  \<open>UnknownTailMethod\<close>, naming the tail method and the base method), then resolves the
  parameters, then calls it, and what it returns is the current instance of the next round.
  So the order matters: on the sample library \<^verbatim>\<open>[["optional"], ["array"]]\<close> gives an array
  schema, which rejects \<^verbatim>\<open>undefined\<close>, and the reversed tail gives an optional schema,
  which accepts it.
\<close>

theorem tail_in_order:
  "(\<not> isRef node \<and> \<not> isFunction node \<and> isZodJson node
      \<and> map_of node ''method'' = Some (JStr base)
      \<and> callable (get (z env) base) = Some methodFn
      \<and> arguments (\<lambda>p. parseNode env root p) (map_of node ''params'') st = (Inr params, st1)
      \<and> map_of node ''tail'' = Some (JArr tail) \<longrightarrow>
      parseNode env root (JObj node) st =
        (case for_each (tailStep (\<lambda>p. parseNode env root p) env base) tail (methodFn params) st1 of
           (Inl e, st2) \<Rightarrow> (Inl e, st2)
         | (Inr final, st2) \<Rightarrow> (Inr (VInst final), st2))) \<and>
   for_each (tailStep (\<lambda>p. parseNode env root p) env base) (earlier @ later) current s =
     (case for_each (tailStep (\<lambda>p. parseNode env root p) env base) earlier current s of
        (Inl e, s') \<Rightarrow> (Inl e, s')
      | (Inr current', s') \<Rightarrow>
          for_each (tailStep (\<lambda>p. parseNode env root p) env base) later current' s') \<and>
   (member env current name = None \<longrightarrow>
      tailStep (\<lambda>p. parseNode env root p) env base (JArr (JStr name # rest)) current s
        = (Inl (UnknownTailMethod name base), s)) \<and>
   (member env current name = Some tailMethodFn
      \<and> arguments (\<lambda>p. parseNode env root p) (case rest of [] \<Rightarrow> None | p # others \<Rightarrow> Some p) s
          = (Inr args, s') \<longrightarrow>
      tailStep (\<lambda>p. parseNode env root p) env base (JArr (JStr name # rest)) current s
        = (Inr (tailMethodFn args), s')) \<and>
   (fst (parseNode sample_env \<lparr>definitions = None, schema = JNull\<rparr>
           (string_with_tail [JArr [JStr ''optional''], JArr [JStr ''array'']]) empty_state)
      = Inr (VInst (SArray (SOptional SString)))
    \<and> fst (parseNode sample_env \<lparr>definitions = None, schema = JNull\<rparr>
           (string_with_tail [JArr [JStr ''array''], JArr [JStr ''optional'']]) empty_state)
      = Inr (VInst (SOptional (SArray SString)))
    \<and> \<not> accepts (SArray (SOptional SString)) VUndefined
    \<and> accepts (SOptional (SArray SString)) VUndefined)"
proof (intro conjI impI)
  show "for_each (tailStep (\<lambda>p. parseNode env root p) env base) (earlier @ later) current s =
     (case for_each (tailStep (\<lambda>p. parseNode env root p) env base) earlier current s of
        (Inl e, s') \<Rightarrow> (Inl e, s')
      | (Inr current', s') \<Rightarrow>
          for_each (tailStep (\<lambda>p. parseNode env root p) env base) later current' s')"
    by (rule for_each_append)
qed (simp_all add: string_with_tail_def sample_eval)

theorem tail_in_order_witness:
  "parseNode sample_env \<lparr>definitions = None, schema = JNull\<rparr>
      (string_with_tail [JArr [JStr ''min'', JArr [JNum 3]], JArr [JStr ''max'', JArr [JNum 10]]])
      empty_state
     = (Inr (VInst (SMax 10 (SMin 3 SString))), empty_state) \<and>
   tailStep (\<lambda>p. parseNode sample_env \<lparr>definitions = None, schema = JNull\<rparr> p) sample_env ''string''
      (JArr [JStr ''min'', JArr [JNum 3]]) (SOptional SString) empty_state
     = (Inl (UnknownTailMethod ''min'' ''string''), empty_state) \<and>
   tailStep (\<lambda>p. parseNode sample_env \<lparr>definitions = None, schema = JNull\<rparr> p) sample_env ''string''
      (JArr [JStr ''max'', JArr [JNum 10]]) (SMin 3 SString) empty_state
     = (Inr (SMax 10 (SMin 3 SString)), empty_state) \<and>
   accepts (SMax 10 (SMin 3 SString)) (VStr ''hello'') \<and>
   \<not> accepts (SMax 10 (SMin 3 SString)) (VStr ''hi'') \<and>
   \<not> accepts (SMax 10 (SMin 3 SString)) (VStr ''this is too long'')"
proof -
  let ?root = "\<lparr>definitions = None, schema = JNull\<rparr>"
  let ?tail = "[JArr [JStr ''min'', JArr [JNum 3]], JArr [JStr ''max'', JArr [JNum 10]]]"
  let ?node = "[(''_schema'', JStr ''json-zod''), (''method'', JStr ''string''), (''tail'', JArr ?tail)]"
  have loop: "for_each (tailStep (\<lambda>p. parseNode sample_env ?root p) sample_env ''string'') ?tail
      SString empty_state = (Inr (SMax 10 (SMin 3 SString)), empty_state)"
    by (simp add: sample_eval)
  have 1: "parseNode sample_env ?root (JObj ?node) empty_state
      = (Inr (VInst (SMax 10 (SMin 3 SString))), empty_state)"
    using tail_in_order [of ?node "''string''" sample_env "\<lambda>vs. SString" ?root empty_state "[]"
        empty_state ?tail]
    by (simp add: loop) (simp add: sample_eval)
  have 2: "tailStep (\<lambda>p. parseNode sample_env ?root p) sample_env ''string''
      (JArr [JStr ''min'', JArr [JNum 3]]) (SOptional SString) empty_state
     = (Inl (UnknownTailMethod ''min'' ''string''), empty_state)"
    using tail_in_order [where env = sample_env and current = "SOptional SString" and name = "''min''"
        and base = "''string''" and rest = "[JArr [JNum 3]]" and s = empty_state and root = ?root]
    by (simp add: sample_env_def sample_member_def)
  have 3: "tailStep (\<lambda>p. parseNode sample_env ?root p) sample_env ''string''
      (JArr [JStr ''max'', JArr [JNum 10]]) (SMin 3 SString) empty_state
     = (Inr (SMax 10 (SMin 3 SString)), empty_state)"
    using tail_in_order [where env = sample_env and current = "SMin 3 SString" and name = "''max''"
        and base = "''string''" and rest = "[JArr [JNum 10]]" and s = empty_state and root = ?root
        and tailMethodFn = "sample_bound SMax (SMin 3 SString)" and args = "[VNum 10]"
        and s' = empty_state]
    by (simp add: sample_env_def sample_member_def arguments_def)
  show ?thesis
    using 1 2 3 by (simp add: string_with_tail_def)
qed

section \<open>References and the cache\<close>

text \<open>
  A relation between the state before and the state after that is reflexive and transitive
  and holds across the reference branch holds across every call of \<^verbatim>\<open>parseNode\<close>: no other
  branch touches the cache.
\<close>

lemma snd_spread: "snd (spread x) = snd x"
  by (cases x rule: spread.cases) simp_all

lemma map_items_preserves:
  assumes "\<And>s. R s s" and "\<And>a b c. R a b \<Longrightarrow> R b c \<Longrightarrow> R a c"
  shows "(\<And>x s r s'. x \<in> set xs \<Longrightarrow> f x s = (r, s') \<Longrightarrow> R s s')
           \<Longrightarrow> map_items f xs s = (r, s') \<Longrightarrow> R s s'"
proof (induction xs arbitrary: s r s')
  case Nil
  then show ?case using assms(1) by simp
next
  case (Cons x xs)
  obtain y s1 where head: "f x s = (y, s1)"
    by (cases "f x s")
  then have 1: "R s s1"
    using Cons.prems(1) [of x s y s1] by simp
  show ?case
  proof (cases y)
    case (Inl e)
    with head Cons.prems(2) 1 show ?thesis by simp
  next
    case (Inr v)
    obtain ys s2 where rest: "map_items f xs s1 = (ys, s2)"
      by (cases "map_items f xs s1")
    have "R s1 s2"
    proof (rule Cons.IH [OF _ rest])
      fix x' t r t'
      assume "x' \<in> set xs" "f x' t = (r, t')"
      then show "R t t'"
        using Cons.prems(1) [of x' t r t'] by simp
    qed
    moreover have "s' = s2"
      using Cons.prems(2) head Inr rest by (auto split: sum.splits)
    ultimately show ?thesis
      using 1 assms(2) by blast
  qed
qed

lemma for_each_preserves:
  assumes "\<And>s. R s s" and "\<And>a b c. R a b \<Longrightarrow> R b c \<Longrightarrow> R a c"
  shows "(\<And>x acc s r s'. x \<in> set xs \<Longrightarrow> body x acc s = (r, s') \<Longrightarrow> R s s')
           \<Longrightarrow> for_each body xs acc s = (r, s') \<Longrightarrow> R s s'"
proof (induction xs arbitrary: s acc r s')
  case Nil
  then show ?case using assms(1) by simp
next
  case (Cons x xs)
  obtain y s1 where head: "body x acc s = (y, s1)"
    by (cases "body x acc s")
  then have 1: "R s s1"
    using Cons.prems(1) [of x acc s y s1] by simp
  show ?case
  proof (cases y)
    case (Inl e)
    with head Cons.prems(2) 1 show ?thesis by simp
  next
    case (Inr acc')
    then have rest: "for_each body xs acc' s1 = (r, s')"
      using Cons.prems(2) head by simp
    have "R s1 s'"
    proof (rule Cons.IH [OF _ rest])
      fix x' a t r t'
      assume "x' \<in> set xs" "body x' a t = (r, t')"
      then show "R t t'"
        using Cons.prems(1) [of x' a t r t'] by simp
    qed
    then show ?thesis
      using 1 assms(2) by blast
  qed
qed

lemma arguments_preserves:
  assumes "\<And>p s r s'. po = Some p \<Longrightarrow> parse p s = (r, s') \<Longrightarrow> R s s'"
    and "\<And>s. R s s"
    and "arguments parse po s = (r, s')"
  shows "R s s'"
proof (cases "\<exists>p. po = Some p \<and> truthy p")
  case True
  then obtain p where p: "po = Some p" "truthy p" by blast
  then have "s' = snd (parse p s)"
    using assms(3) snd_spread [of "parse p s"] by (simp add: arguments_def)
  then show ?thesis
    using assms(1) [OF p(1), of s "fst (parse p s)" s'] by simp
next
  case False
  then have "s' = s"
    using assms(3) by (auto simp: arguments_def split: option.splits)
  then show ?thesis
    using assms(2) by simp
qed

lemma tailStep_preserves:
  assumes "\<And>name p others s r s'. entry = JArr (name # p # others) \<Longrightarrow> parse p s = (r, s') \<Longrightarrow> R s s'"
    and "\<And>s. R s s"
    and "tailStep parse env base entry current s = (r, s')"
  shows "R s s'"
proof (cases "\<exists>name rest f. entry = JArr (JStr name # rest) \<and> member env current name = Some f")
  case True
  then obtain name rest f where e: "entry = JArr (JStr name # rest)" "member env current name = Some f"
    by blast
  let ?po = "case rest of [] \<Rightarrow> None | p # others \<Rightarrow> Some p"
  obtain a s1 where args: "arguments parse ?po s = (a, s1)"
    by (cases "arguments parse ?po s")
  have "R s s1"
  proof (rule arguments_preserves [OF _ assms(2) args])
    fix p t r t'
    assume "?po = Some p" "parse p t = (r, t')"
    then show "R t t'"
      using assms(1) [of "JStr name" p _ t r t'] e(1) by (cases rest) auto
  qed
  moreover have "s' = s1"
    using assms(3) e args by (auto simp: tailStep_def split: sum.splits)
  ultimately show ?thesis by simp
next
  case False
  then have "s' = s"
    using assms(3)
    by (auto simp: tailStep_def split: json.splits list.splits option.splits)
  then show ?thesis
    using assms(2) by simp
qed

lemma assignProperty_preserves:
  assumes "\<And>s r s'. parse (snd property) s = (r, s') \<Longrightarrow> R s s'"
    and "assignProperty parse property result s = (r, s')"
  shows "R s s'"
proof -
  have "s' = snd (parse (snd property) s)"
    using assms(2) by (auto simp: assignProperty_def split: prod.splits sum.splits)
  then show ?thesis
    using assms(1) [of s "fst (parse (snd property) s)" s'] by simp
qed

lemma functionBranch_state: "snd (functionBranch env node st) = st"
  by (auto simp: functionBranch_def split: option.splits json.splits)

lemma parseNode_preserves:
  assumes refl: "\<And>s. R s s" and trans: "\<And>a b c. R a b \<Longrightarrow> R b c \<Longrightarrow> R a c"
    and ref: "\<And>node s r s'. referenceBranch root node s = (r, s') \<Longrightarrow> R s s'"
  shows "parseNode env root n st = (r, st') \<Longrightarrow> R st st'"
proof (induction n arbitrary: st r st' rule: measure_induct_rule [of size])
  case (less n)
  show ?case
  proof (cases n)
    case (JArr items)
    obtain vs s1 where items: "map_items (\<lambda>item. parseNode env root item) items st = (vs, s1)"
      by (cases "map_items (\<lambda>item. parseNode env root item) items st")
    have "R st s1"
    proof (rule map_items_preserves [OF refl trans _ items])
      fix x s r s'
      assume "x \<in> set items" "parseNode env root x s = (r, s')"
      then show "R s s'"
        using less.IH [of x s r s'] JArr size_member [of x items size] by simp
    qed
    moreover have "st' = s1"
      using less.prems JArr items by (auto split: sum.splits)
    ultimately show ?thesis by simp
  next
    case (JObj node)
    consider (reference) "isRef node"
      | (compiled) "\<not> isRef node" "isFunction node"
      | (zodJson) "\<not> isRef node" "\<not> isFunction node" "isZodJson node"
      | (mapping) "\<not> isRef node" "\<not> isFunction node" "\<not> isZodJson node"
      by blast
    then show ?thesis
    proof cases
      case reference
      then show ?thesis
        using less.prems JObj assms(3) by simp
    next
      case compiled
      then have "st' = st"
        using less.prems JObj functionBranch_state [of env node st] by simp
      then show ?thesis
        using refl by simp
    next
      case zodJson
      show ?thesis
      proof (cases "\<exists>m f. map_of node ''method'' = Some (JStr m) \<and> callable (get (z env) m) = Some f")
        case False
        then have "st' = st"
          using less.prems JObj zodJson by (auto split: option.splits json.splits)
        then show ?thesis
          using refl by simp
      next
        case True
        then obtain m f where m: "map_of node ''method'' = Some (JStr m)"
          "callable (get (z env) m) = Some f" by blast
        obtain a s1 where args:
          "arguments (\<lambda>params. parseNode env root params) (map_of node ''params'') st = (a, s1)"
          by (cases "arguments (\<lambda>params. parseNode env root params) (map_of node ''params'') st")
        have 1: "R st s1"
        proof (rule arguments_preserves [OF _ refl args])
          fix p s r s'
          assume "map_of node ''params'' = Some p" "parseNode env root p s = (r, s')"
          then show "R s s'"
            using less.IH [of p s r s'] JObj size_lookup [of node "''params''" p] by simp
        qed
        show ?thesis
        proof (cases "\<exists>ps tail. a = Inr ps \<and> map_of node ''tail'' = Some (JArr tail)")
          case False
          then have "st' = s1"
            using less.prems JObj zodJson m args by (auto split: option.splits json.splits sum.splits)
          then show ?thesis
            using 1 by simp
        next
          case True
          then obtain ps tail where t: "a = Inr ps" "map_of node ''tail'' = Some (JArr tail)"
            by blast
          obtain final s2 where loop:
            "for_each (tailStep (\<lambda>p. parseNode env root p) env m) tail (f ps) s1 = (final, s2)"
            by (cases "for_each (tailStep (\<lambda>p. parseNode env root p) env m) tail (f ps) s1")
          have "R s1 s2"
          proof (rule for_each_preserves [OF refl trans _ loop])
            fix entry current s r s'
            assume entry: "entry \<in> set tail"
              and step: "tailStep (\<lambda>p. parseNode env root p) env m entry current s = (r, s')"
            show "R s s'"
            proof (rule tailStep_preserves [OF _ refl step])
              fix name p others t r t'
              assume "entry = JArr (name # p # others)" "parseNode env root p t = (r, t')"
              then show "R t t'"
                using less.IH [of p t r t'] JObj size_tail_param [OF t(2), of name p others] entry
                by simp
            qed
          qed
          moreover have "st' = s2"
            using less.prems JObj zodJson m args t loop by (auto split: sum.splits)
          ultimately show ?thesis
            using 1 trans by blast
        qed
      qed
    next
      case mapping
      obtain res s1 where loop:
        "for_each (assignProperty (\<lambda>child. parseNode env root child)) node (None, []) st = (res, s1)"
        by (cases "for_each (assignProperty (\<lambda>child. parseNode env root child)) node (None, []) st")
      have "R st s1"
      proof (rule for_each_preserves [OF refl trans _ loop])
        fix property result s r s'
        assume property: "property \<in> set node"
          and step: "assignProperty (\<lambda>child. parseNode env root child) property result s = (r, s')"
        show "R s s'"
        proof (rule assignProperty_preserves [OF _ step])
          fix t r t'
          assume "parseNode env root (snd property) t = (r, t')"
          then show "R t t'"
            using less.IH [of "snd property" t r t'] JObj size_property [OF property] by simp
        qed
      qed
      moreover have "st' = s1"
        using less.prems JObj mapping loop by (auto split: sum.splits prod.splits)
      ultimately show ?thesis by simp
    qed
  qed (use less.prems refl in auto)
qed


text \<open>
  The cache holds only handles made by \<^verbatim>\<open>z.lazy\<close> in this call, each under the id its thunk
  has captured, no handle under two ids, and as many handles have been made as there are ids
  in the cache.
\<close>

definition cache_invariant :: "'v resolver_state \<Rightarrow> bool" where
  "cache_invariant st =
     (finite (dom (definitionCache st)) \<and> card (dom (definitionCache st)) = lazyCount st
      \<and> (\<forall>refId v. definitionCache st refId = Some v \<longrightarrow> (\<exists>h < lazyCount st. v = VLazy h refId))
      \<and> (\<forall>refId refId' h. definitionCache st refId = Some (VLazy h refId)
            \<and> definitionCache st refId' = Some (VLazy h refId') \<longrightarrow> refId = refId'))"

lemma cache_invariant_empty: "cache_invariant empty_state"
  by (simp add: cache_invariant_def empty_state_def)

lemma referenceBranch_cases:
  assumes "referenceBranch root node st = (r, st')"
  shows "st' = st \<or>
         (\<exists>refId. map_of node ''id'' = Some (JStr refId) \<and> definitionFound root refId
            \<and> definitionCache st refId = None \<and> r = Inr (VLazy (lazyCount st) refId)
            \<and> st' = st\<lparr>definitionCache := (definitionCache st)(refId \<mapsto> VLazy (lazyCount st) refId),
                       lazyCount := Suc (lazyCount st)\<rparr>)"
  using assms
  by (auto simp: referenceBranch_def Let_def split: option.splits json.splits if_splits)

lemma referenceBranch_grows:
  "referenceBranch root node st = (r, st') \<Longrightarrow> definitionCache st \<subseteq>\<^sub>m definitionCache st'"
  by (drule referenceBranch_cases) (auto simp: map_le_def)

lemma referenceBranch_invariant:
  assumes "referenceBranch root node st = (r, st')" and "cache_invariant st"
  shows "cache_invariant st'"
proof -
  from referenceBranch_cases [OF assms(1)] show ?thesis
  proof
    assume "st' = st"
    with assms(2) show ?thesis by simp
  next
    assume "\<exists>refId. map_of node ''id'' = Some (JStr refId) \<and> definitionFound root refId
            \<and> definitionCache st refId = None \<and> r = Inr (VLazy (lazyCount st) refId)
            \<and> st' = st\<lparr>definitionCache := (definitionCache st)(refId \<mapsto> VLazy (lazyCount st) refId),
                       lazyCount := Suc (lazyCount st)\<rparr>"
    then obtain refId where new: "definitionCache st refId = None"
      and st': "st' = st\<lparr>definitionCache := (definitionCache st)(refId \<mapsto> VLazy (lazyCount st) refId),
                       lazyCount := Suc (lazyCount st)\<rparr>"
      by blast
    have fin: "finite (dom (definitionCache st))"
      and card: "card (dom (definitionCache st)) = lazyCount st"
      and lazy: "\<And>i v. definitionCache st i = Some v \<Longrightarrow> \<exists>h < lazyCount st. v = VLazy h i"
      and inj: "\<And>i i' h. definitionCache st i = Some (VLazy h i) \<Longrightarrow>
                  definitionCache st i' = Some (VLazy h i') \<Longrightarrow> i = i'"
      using assms(2) unfolding cache_invariant_def by blast+
    have notin: "refId \<notin> dom (definitionCache st)"
      using new by (simp add: domIff)
    have 1: "finite (dom (definitionCache st'))"
      using fin by (simp add: st')
    have 2: "card (dom (definitionCache st')) = lazyCount st'"
      using fin card notin by (simp add: st')
    have 3: "\<exists>h < lazyCount st'. v = VLazy h i" if "definitionCache st' i = Some v" for i v
    proof (cases "i = refId")
      case True
      with that show ?thesis by (auto simp: st')
    next
      case False
      with that have "definitionCache st i = Some v" by (simp add: st')
      from lazy [OF this] show ?thesis by (auto simp: st' less_Suc_eq)
    qed
    have 4: "i = i'" if a: "definitionCache st' i = Some (VLazy h i)"
      and b: "definitionCache st' i' = Some (VLazy h i')" for i i' h
    proof (cases "i = refId")
      case i: True
      show ?thesis
      proof (cases "i' = refId")
        case True
        with i show ?thesis by simp
      next
        case False
        with b have "definitionCache st i' = Some (VLazy h i')" by (simp add: st')
        from lazy [OF this] have "h < lazyCount st" by simp
        moreover from a i have "h = lazyCount st" by (simp add: st')
        ultimately show ?thesis by simp
      qed
    next
      case i: False
      with a have a': "definitionCache st i = Some (VLazy h i)" by (simp add: st')
      show ?thesis
      proof (cases "i' = refId")
        case True
        with b have "h = lazyCount st" by (simp add: st')
        moreover from lazy [OF a'] have "h < lazyCount st" by simp
        ultimately show ?thesis by simp
      next
        case False
        with b have "definitionCache st i' = Some (VLazy h i')" by (simp add: st')
        with a' show ?thesis by (rule inj)
      qed
    qed
    show ?thesis
      unfolding cache_invariant_def using 1 2 3 4 by blast
  qed
qed

lemma parseNode_grows:
  assumes "parseNode env root n st = (r, st')"
  shows "definitionCache st \<subseteq>\<^sub>m definitionCache st'"
proof (rule parseNode_preserves
    [where R = "\<lambda>s s'. definitionCache s \<subseteq>\<^sub>m definitionCache s'", OF _ _ _ assms])
  show "definitionCache a \<subseteq>\<^sub>m definitionCache c"
    if "definitionCache a \<subseteq>\<^sub>m definitionCache b" "definitionCache b \<subseteq>\<^sub>m definitionCache c"
    for a b c :: "'a resolver_state"
    using that by (rule map_le_trans)
qed (simp_all add: referenceBranch_grows)

lemma parseNode_invariant:
  assumes "parseNode env root n st = (r, st')" and "cache_invariant st"
  shows "cache_invariant st'"
proof -
  have "cache_invariant st \<longrightarrow> cache_invariant st'"
    by (rule parseNode_preserves
        [where R = "\<lambda>s s'. cache_invariant s \<longrightarrow> cache_invariant s'", OF _ _ _ assms(1)])
       (simp_all add: referenceBranch_invariant)
  with assms(2) show ?thesis by simp
qed

text \<open>The ids for which the existence check of a reference succeeds.\<close>

definition found :: "ZodJsonRoot \<Rightarrow> string set" where
  "found root = {refId. definitionFound root refId}"

lemma referenceBranch_found:
  assumes "referenceBranch root node st = (r, st')"
  shows "dom (definitionCache st') \<subseteq> dom (definitionCache st) \<union> found root"
  using referenceBranch_cases [OF assms]
  by (auto simp: found_def split: if_splits)

lemma parseNode_found:
  assumes "parseNode env root n st = (r, st')"
  shows "dom (definitionCache st') \<subseteq> dom (definitionCache st) \<union> found root"
proof (rule parseNode_preserves
    [where R = "\<lambda>s s'. dom (definitionCache s') \<subseteq> dom (definitionCache s) \<union> found root",
      OF _ _ _ assms])
  show "dom (definitionCache c) \<subseteq> dom (definitionCache a) \<union> found root"
    if "dom (definitionCache b) \<subseteq> dom (definitionCache a) \<union> found root"
      "dom (definitionCache c) \<subseteq> dom (definitionCache b) \<union> found root"
    for a b c :: "'a resolver_state"
    using that by blast
qed (simp_all add: referenceBranch_found)

lemma lazyThunk_cases:
  assumes "lazyThunk env root refId st = (r, st')"
  shows "st' = st \<or> (\<exists>definition. parseNode env root definition st = (r, st'))"
  using assms
  by (auto simp: lazyThunk_def split: option.splits property.splits if_splits)




lemma lazyThunk_grows:
  assumes "lazyThunk env root refId st = (r, st')"
  shows "definitionCache st \<subseteq>\<^sub>m definitionCache st'"
  using lazyThunk_cases [OF assms] by (auto intro: parseNode_grows)

lemma lazyThunk_invariant:
  assumes "lazyThunk env root refId st = (r, st')" and "cache_invariant st"
  shows "cache_invariant st'"
  using lazyThunk_cases [OF assms(1)] assms(2) by (auto intro: parseNode_invariant)


lemma reference_hit:
  assumes "isRef node" and "map_of node ''id'' = Some (JStr refId)"
    and "definitionFound root refId" and "definitionCache st refId = Some handle"
    and "handle \<noteq> VUndefined"
  shows "parseNode env root (JObj node) st = (Inr handle, st)"
  using assms by (simp add: referenceBranch_def)


text \<open>
  The states of the cache that one call of \<^verbatim>\<open>fromZodJson\<close> can lead to: the state in which
  it returns, and from there the state after the library has run the thunk of a handle it
  holds, in any order and any number of times.
\<close>

inductive reachable :: "'v env \<Rightarrow> ZodJsonRoot \<Rightarrow> 'v resolver_state \<Rightarrow> bool"
  for env :: "'v env" and root :: ZodJsonRoot where
  resolved: "fromZodJson env root = (r, st) \<Longrightarrow> reachable env root st"
| forced: "reachable env root st \<Longrightarrow> definitionCache st refId = Some (VLazy h refId) \<Longrightarrow>
     lazyThunk env root refId st = (r, st') \<Longrightarrow> reachable env root st'"

lemma fromZodJson_invariant:
  assumes "fromZodJson env root = (r, st)"
  shows "cache_invariant st" and "dom (definitionCache st) \<subseteq> found root"
proof -
  have start: "parseNode env root (schema root) empty_state = (r, st)"
    using assms by (simp add: fromZodJson_def empty_state_def)
  show "cache_invariant st"
    using start cache_invariant_empty by (rule parseNode_invariant)
  show "dom (definitionCache st) \<subseteq> found root"
    using parseNode_found [OF start] by (simp add: empty_state_def)
qed




text \<open>
  \<^verbatim>\<open>{ _is: "ref", id: refId }\<close>, and the self-referential document of the test suite:
  a \<^verbatim>\<open>Category\<close> is an object with a \<^verbatim>\<open>name\<close> and an array of \<^verbatim>\<open>subcategories\<close>
  that are categories.
\<close>

definition reference :: "string \<Rightarrow> json" where
  "reference refId = JObj [(''_is'', JStr ''ref''), (''id'', JStr refId)]"






text \<open>
  Three definitions that refer to each other in a circle, \<^verbatim>\<open>A\<close> to \<^verbatim>\<open>B\<close> to \<^verbatim>\<open>C\<close> to
  \<^verbatim>\<open>A\<close>.  \<^verbatim>\<open>fromZodJson\<close> makes the handle of \<^verbatim>\<open>A\<close>; running its thunk makes the
  handle of \<^verbatim>\<open>B\<close>, whose thunk makes that of \<^verbatim>\<open>C\<close>, whose thunk finds \<^verbatim>\<open>A\<close> in the
  cache: three handles, and nothing left to make.
\<close>

definition array_of :: "string \<Rightarrow> json" where
  "array_of refId =
     JObj [(''_schema'', JStr ''json-zod''), (''method'', JStr ''array''),
           (''params'', JArr [reference refId])]"

definition mutual_root :: ZodJsonRoot where
  "mutual_root =
     \<lparr>definitions = Some [(''A'', array_of ''B''), (''B'', array_of ''C''), (''C'', array_of ''A'')],
      schema = reference ''A''\<rparr>"

definition mutual_state :: "nat \<Rightarrow> sample resolver_state" where
  "mutual_state n =
     \<lparr>definitionCache = map_of (take n [(''A'', VLazy 0 ''A''), (''B'', VLazy 1 ''B''), (''C'', VLazy 2 ''C'')]),
      lazyCount = n\<rparr>"

lemmas mutual_eval = fromZodJson_def empty_state_def lazyThunk_def mutual_root_def mutual_state_def
  array_of_def reference_def sample_eval referenceBranch_def definitionFound_def js_get_def Let_def
  fun_eq_iff

lemma mutual_references:
  "fromZodJson sample_env mutual_root = (Inr (VLazy 0 ''A''), mutual_state 1)"
  "lazyThunk sample_env mutual_root ''A'' (mutual_state 1)
     = (Inr (VInst (SArray (SLazy 1 ''B''))), mutual_state 2)"
  "lazyThunk sample_env mutual_root ''B'' (mutual_state 2)
     = (Inr (VInst (SArray (SLazy 2 ''C''))), mutual_state 3)"
  "lazyThunk sample_env mutual_root ''C'' (mutual_state 3)
     = (Inr (VInst (SArray (SLazy 0 ''A''))), mutual_state 3)"
  by (simp_all add: mutual_eval eval_nat_numeral)

text \<open>
  C6.  Neither \<^verbatim>\<open>parseNode\<close> nor the thunk of a handle ever replaces or removes an entry of the
  cache, and both keep the invariant of the cache: only handles made by \<^verbatim>\<open>z.lazy\<close>, each
  under its own id, as many handles made as ids cached.  So within one call of
  \<^verbatim>\<open>fromZodJson\<close> each id gets one handle, and a reference to an id that is in the cache
  returns the very handle stored there and leaves the state as it is.
\<close>

theorem one_handle_per_id:
  "(parseNode env root node st = (r, st') \<longrightarrow>
      definitionCache st \<subseteq>\<^sub>m definitionCache st' \<and> (cache_invariant st \<longrightarrow> cache_invariant st')) \<and>
   (lazyThunk env root forcedId st = (r, st') \<longrightarrow>
      definitionCache st \<subseteq>\<^sub>m definitionCache st' \<and> (cache_invariant st \<longrightarrow> cache_invariant st')) \<and>
   (cache_invariant st \<and> isRef ref \<and> map_of ref ''id'' = Some (JStr refId)
      \<and> definitionFound root refId \<and> definitionCache st refId = Some handle \<longrightarrow>
      parseNode env root (JObj ref) st = (Inr handle, st)) \<and>
   (fromZodJson env root = (r, st') \<longrightarrow> cache_invariant st')"
proof (intro conjI impI)
  assume "cache_invariant st \<and> isRef ref \<and> map_of ref ''id'' = Some (JStr refId)
      \<and> definitionFound root refId \<and> definitionCache st refId = Some handle"
  moreover from this have "handle \<noteq> VUndefined"
    by (auto simp: cache_invariant_def)
  ultimately show "parseNode env root (JObj ref) st = (Inr handle, st)"
    using reference_hit [of ref refId root st handle env] by blast
qed (auto intro: parseNode_grows parseNode_invariant lazyThunk_grows lazyThunk_invariant
      fromZodJson_invariant)

text \<open>A document that refers to one definition twice.\<close>

definition tree_root :: ZodJsonRoot where
  "tree_root =
     \<lparr>definitions = Some
        [(''Tree'', JObj [(''_schema'', JStr ''json-zod''), (''method'', JStr ''array''),
                         (''params'', JArr [reference ''Tree''])])],
      schema =
        JObj [(''_schema'', JStr ''json-zod''), (''method'', JStr ''object''),
              (''params'', JArr [JObj [(''left'', reference ''Tree''),
                                      (''right'', reference ''Tree'')]])]\<rparr>"

definition tree_state :: "sample resolver_state" where
  "tree_state = \<lparr>definitionCache = [''Tree'' \<mapsto> VLazy 0 ''Tree''], lazyCount = 1\<rparr>"

lemma tree_resolved:
  "fromZodJson sample_env tree_root
     = (Inr (VInst (SObject [(''left'', SLazy 0 ''Tree''), (''right'', SLazy 0 ''Tree'')])),
        tree_state)"
  by (simp add: fromZodJson_def empty_state_def tree_root_def reference_def tree_state_def sample_eval
      referenceBranch_def definitionFound_def js_get_def assignProperty_def js_set_def
      define_own_def array_index_def is_digit_def code_unit_def Let_def)

theorem one_handle_per_id_witness:
  "fromZodJson sample_env tree_root
     = (Inr (VInst (SObject [(''left'', SLazy 0 ''Tree''), (''right'', SLazy 0 ''Tree'')])),
        tree_state) \<and>
   cache_invariant tree_state \<and>
   card (dom (definitionCache tree_state)) = lazyCount tree_state \<and>
   definitionCache (empty_state :: sample resolver_state) \<subseteq>\<^sub>m definitionCache tree_state \<and>
   parseNode sample_env tree_root (reference ''Tree'') tree_state
     = (Inr (VLazy 0 ''Tree''), tree_state)"
proof -
  let ?result = "Inr (VInst (SObject [(''left'', SLazy 0 ''Tree''), (''right'', SLazy 0 ''Tree'')]))"
  have inv: "cache_invariant tree_state"
    using one_handle_per_id [of sample_env tree_root _ _ ?result tree_state] tree_resolved
    by simp
  have hit: "parseNode sample_env tree_root (reference ''Tree'') tree_state
     = (Inr (VLazy 0 ''Tree''), tree_state)"
    using one_handle_per_id [of sample_env tree_root _ tree_state _ _ _
        "[(''_is'', JStr ''ref''), (''id'', JStr ''Tree'')]" "''Tree''" "VLazy 0 ''Tree''"] inv
    by (simp add: isRef_def reference_def tree_root_def definitionFound_def js_get_def
        tree_state_def)
  have grows: "definitionCache (empty_state :: sample resolver_state) \<subseteq>\<^sub>m definitionCache tree_state"
    using one_handle_per_id [of sample_env tree_root "schema tree_root" empty_state ?result
        tree_state] tree_resolved
    by (simp add: fromZodJson_def empty_state_def)
  show ?thesis
    using tree_resolved inv hit grows by (simp add: cache_invariant_def)
qed

subsection \<open>The existence check\<close>

text \<open>
  A reference to an id that is neither a key of \<^verbatim>\<open>definitions\<close> nor a name inherited from
  \<^verbatim>\<open>Object.prototype\<close>, or any reference when the document has no \<^verbatim>\<open>definitions\<close>,
  fails at once with \<open>UnknownDefinition\<close>.
\<close>

lemma unknown_definition:
  assumes "isRef node" and "map_of node ''id'' = Some (JStr refId)"
    and "definitions root = None \<or>
         (\<exists>defs. definitions root = Some defs \<and> map_of defs refId = None
            \<and> refId \<noteq> ''__proto__'' \<and> refId \<notin> set objectPrototypeFunctions)"
  shows "parseNode env root (JObj node) st = (Inl (UnknownDefinition refId), st)"
  using assms by (auto simp: referenceBranch_def definitionFound_def js_get_def)

text \<open>
  C4 fails on the code for the inherited names.  With \<^verbatim>\<open>definitions: {}\<close> and the reference
  \<^verbatim>\<open>{ _is: "ref", id: "toString" }\<close> the check \<^verbatim>\<open>!root.definitions[refId]\<close> reads
  \<^verbatim>\<open>Object.prototype.toString\<close>, a function and so truthy: nothing is thrown, and
  \<^verbatim>\<open>fromZodJson\<close> returns a lazy handle for an id that is no key of \<^verbatim>\<open>definitions\<close>.
\<close>

theorem inherited_name_passes_existence_check:
  "fromZodJson sample_env \<lparr>definitions = Some [], schema = reference ''toString''\<rparr>
     = (Inr (VLazy 0 ''toString''),
        \<lparr>definitionCache = [''toString'' \<mapsto> VLazy 0 ''toString''], lazyCount = 1\<rparr>)"
  by (simp add: fromZodJson_def empty_state_def reference_def isRef_def referenceBranch_def definitionFound_def
      js_get_def objectPrototypeFunctions_def Let_def)

section \<open>Plain mappings\<close>

text \<open>
  The order in which an object enumerates its own keys: distinct keys, the array indices
  first and ascending, then the other keys.
\<close>

definition key_before :: "string \<Rightarrow> string \<Rightarrow> bool" where
  "key_before a b =
     (case array_index b of
        None \<Rightarrow> True
      | Some n \<Rightarrow> (case array_index a of None \<Rightarrow> False | Some m \<Rightarrow> m < n))"

definition own_keys_ordered :: "string list \<Rightarrow> bool" where
  "own_keys_ordered keys = (distinct keys \<and> sorted_wrt key_before keys)"

lemma insert_index_last:
  "(\<And>k'. k' \<in> fst ` set props \<Longrightarrow> \<exists>m. array_index k' = Some m \<and> m < n)
     \<Longrightarrow> insert_index n k v props = props @ [(k, v)]"
proof (induction props)
  case Nil
  then show ?case by simp
next
  case (Cons p props)
  obtain k' v' where p: "p = (k', v')" by (cases p)
  then obtain m where "array_index k' = Some m" "m < n"
    using Cons.prems [of k'] by auto
  moreover have "insert_index n k v props = props @ [(k, v)]"
    using Cons.prems by (intro Cons.IH) auto
  ultimately show ?case
    by (simp add: p)
qed

lemma define_own_last:
  assumes "k \<notin> fst ` set props" and "\<And>k'. k' \<in> fst ` set props \<Longrightarrow> key_before k' k"
  shows "define_own k v props = props @ [(k, v)]"
proof (cases "array_index k")
  case None
  with assms(1) show ?thesis by (simp add: define_own_def)
next
  case (Some n)
  have "\<exists>m. array_index k' = Some m \<and> m < n" if "k' \<in> fst ` set props" for k'
    using assms(2) [OF that] Some by (auto simp: key_before_def split: option.splits)
  then have "insert_index n k v props = props @ [(k, v)]"
    by (rule insert_index_last)
  with assms(1) Some show ?thesis by (simp add: define_own_def)
qed

lemma copy_properties:
  assumes "for_each (assignProperty parse) rest (None, acc) s = (Inr (proto, props), s')"
    and "own_keys_ordered (map fst acc @ map fst rest)"
    and "''__proto__'' \<notin> fst ` set rest"
  shows "proto = None \<and> map fst props = map fst acc @ map fst rest \<and>
         (\<forall>(k, v) \<in> set props. (k, v) \<in> set acc \<or>
            (\<exists>child t t'. (k, child) \<in> set rest \<and> parse child t = (Inr v, t')))"
  using assms
proof (induction rest arbitrary: acc s)
  case Nil
  then show ?case by auto
next
  case (Cons property rest)
  obtain k child where property: "property = (k, child)" by (cases property)
  obtain y s1 where parsed: "parse child s = (y, s1)" by (cases "parse child s")
  have k: "k \<noteq> ''__proto__''"
    using Cons.prems(3) property by auto
  have new: "k \<notin> fst ` set acc"
    using Cons.prems(2) property by (auto simp: own_keys_ordered_def)
  have before: "key_before k' k" if "k' \<in> fst ` set acc" for k'
    using Cons.prems(2) property that by (auto simp: own_keys_ordered_def sorted_wrt_append)
  show ?case
  proof (cases y)
    case (Inl e)
    then show ?thesis
      using Cons.prems(1) property parsed by (simp add: assignProperty_def)
  next
    case (Inr v)
    have set: "js_set (None, acc) k v = Inr (None, acc @ [(k, v)])"
      using k define_own_last [OF new before] by (simp add: js_set_def)
    then have step: "assignProperty parse property (None, acc) s = (Inr (None, acc @ [(k, v)]), s1)"
      using property parsed Inr by (simp add: assignProperty_def)
    then have rest: "for_each (assignProperty parse) rest (None, acc @ [(k, v)]) s1
        = (Inr (proto, props), s')"
      using Cons.prems(1) by simp
    have "proto = None \<and> map fst props = map fst (acc @ [(k, v)]) @ map fst rest \<and>
         (\<forall>(k', v') \<in> set props. (k', v') \<in> set (acc @ [(k, v)]) \<or>
            (\<exists>child t t'. (k', child) \<in> set rest \<and> parse child t = (Inr v', t')))"
      using rest Cons.prems(2,3) property by (intro Cons.IH) auto
    then show ?thesis
      using property parsed Inr by fastforce
  qed
qed

text \<open>
  A plain mapping without the key \<^verbatim>\<open>__proto__\<close> resolves to a new object with the same
  keys in the same order, each value being the parse of the value under that key.
\<close>

lemma plain_mapping_keys:
  assumes "\<not> isRef node" "\<not> isFunction node" "\<not> isZodJson node"
    and "own_keys_ordered (map fst node)"
    and "''__proto__'' \<notin> fst ` set node"
    and "parseNode env root (JObj node) st = (Inr v, st')"
  shows "\<exists>props. v = VObj None props \<and> map fst props = map fst node \<and>
           (\<forall>(k, value) \<in> set props.
              \<exists>child t t'. (k, child) \<in> set node \<and> parseNode env root child t = (Inr value, t'))"
proof -
  obtain proto props where loop:
    "for_each (assignProperty (\<lambda>child. parseNode env root child)) node (None, []) st
       = (Inr (proto, props), st')" and v: "v = VObj proto props"
    using assms(1,2,3,6) by (auto split: prod.splits sum.splits)
  from copy_properties [OF loop] assms(4,5) v show ?thesis
    by auto
qed

text \<open>
  C7 fails on the code for the key \<^verbatim>\<open>__proto__\<close>.  \<^verbatim>\<open>JSON.parse\<close> makes it an own
  property of the mapping, the loop visits it, and \<^verbatim>\<open>result["__proto__"] = ...\<close> calls the
  setter inherited from \<^verbatim>\<open>Object.prototype\<close>: the parsed value becomes the prototype of
  \<^verbatim>\<open>result\<close>, which gets no own property.  The mapping that comes back has no key.
\<close>

theorem proto_key_is_dropped:
  "parseNode sample_env \<lparr>definitions = None, schema = JNull\<rparr>
      (JObj [(''__proto__'', JObj [(''_schema'', JStr ''json-zod''), (''method'', JStr ''string'')])])
      empty_state
     = (Inr (VObj (Some (VInst SString)) []), empty_state)"
  by (simp add: sample_eval assignProperty_def js_set_def)

section \<open>Library calls as effects\<close>

text \<open>
  The resolver calls the library in three places: \<^verbatim>\<open>z.lazy\<close> (line 84), the base
  constructor \<^verbatim>\<open>methodFn(...params)\<close> (line 131) and each chained operation
  \<^verbatim>\<open>tailMethodFn.apply(schema, parsedTailParams)\<close> (line 141).  In \<open>parseNode\<close> above the
  last two return an instance, as the contract of the library has it.  JavaScript does not
  enforce that contract: a function found on \<^verbatim>\<open>z\<close> or on the current value may return any
  value, may throw, and may run the thunk of a lazy handle that it was given, which enters
  \<^verbatim>\<open>parseNode\<close> on the body of a definition while \<^verbatim>\<open>fromZodJson\<close> is still running.  This
  section gives the resolver for such a library.

  An exception is one of the resolver's own errors, an exception of the library or of the
  engine, named by a string, or \<open>OutOfFuel\<close>: the thunks forced inside one another are
  nested deeper than the bound given to the model.
\<close>

datatype failure = Resolver error | Uncaught string | OutOfFuel

text \<open>
  What a call of a library function does: it returns a value, or throws, or forces the handle
  of \<open>refId\<close> and goes on with what the thunk returned or threw.
\<close>

datatype 'v effect =
    Returns "'v jsval"
  | Raises failure
  | Forces string "failure + 'v jsval \<Rightarrow> 'v effect"

text \<open>
  \<^item> \<open>lib_z\<close> is the module object \<^verbatim>\<open>z\<close>, as \<open>z\<close> of \<open>env\<close>.
  \<^item> \<open>lib_member v name\<close> is the property \<^verbatim>\<open>v[name]\<close> of any value other than
    \<^verbatim>\<open>undefined\<close> and \<^verbatim>\<open>null\<close> when it is a function, applied to \<open>v\<close> as
    \<^verbatim>\<open>this\<close>.
  \<^item> \<open>lib_newFunction\<close> is \<open>newFunction\<close> of \<open>env\<close>.
  A call is determined by its arguments: the library keeps no state of its own between calls.
\<close>

record 'v library =
  lib_z :: "('v jsval list \<Rightarrow> 'v effect) surface"
  lib_member :: "'v jsval \<Rightarrow> string \<Rightarrow> ('v jsval list \<Rightarrow> 'v effect) option"
  lib_newFunction :: "string \<Rightarrow> string \<Rightarrow> string option"

type_synonym 'v result = "(failure + 'v jsval) \<times> 'v resolver_state"

text \<open>Running the thunk of the handle of an id, in a state of the cache.\<close>

type_synonym 'v thunks = "string \<Rightarrow> 'v resolver_state \<Rightarrow> 'v result"

text \<open>
  Running a call.  What the thunk throws is thrown inside the library, which may pass it on
  or catch it; only \<open>OutOfFuel\<close> ends the run at once.
\<close>

primrec run :: "'v thunks \<Rightarrow> 'v effect \<Rightarrow> 'v resolver_state \<Rightarrow> 'v result" where
  "run force (Returns v) = (\<lambda>st. (Inr v, st))"
| "run force (Raises e) = (\<lambda>st. (Inl e, st))"
| "run force (Forces refId k) =
     (\<lambda>st. case force refId st of
              (r, st') \<Rightarrow> if r = Inl OutOfFuel then (Inl OutOfFuel, st') else run force (k r) st')"

definition resolver_outcome :: "(error + 'a) \<times> 's \<Rightarrow> (failure + 'a) \<times> 's" where
  "resolver_outcome r =
     (case r of (Inl e, s) \<Rightarrow> (Inl (Resolver e), s) | (Inr v, s) \<Rightarrow> (Inr v, s))"

fun spreadWith :: "(failure + 'v jsval) \<times> 's \<Rightarrow> (failure + 'v jsval list) \<times> 's" where
  "spreadWith (Inl e, s) = (Inl e, s)"
| "spreadWith (Inr (VArr vs), s) = (Inr vs, s)"
| "spreadWith (Inr v, s) = (Inl (Resolver OutsideModel), s)"

definition argumentsWith ::
  "(json \<Rightarrow> 's \<Rightarrow> (failure + 'v jsval) \<times> 's) \<Rightarrow> json option \<Rightarrow> 's
     \<Rightarrow> (failure + 'v jsval list) \<times> 's" where
  "argumentsWith parse p s =
     (case p of
        None \<Rightarrow> (Inr [], s)
      | Some params \<Rightarrow> if truthy params then spreadWith (parse params s) else (Inr [], s))"

definition functionBranchWith ::
  "'v library \<Rightarrow> (string \<times> json) list \<Rightarrow> 'v resolver_state \<Rightarrow> 'v result" where
  "functionBranchWith lib node st =
     (case map_of node ''code'' of
        Some (JStr code) \<Rightarrow>
          (case lib_newFunction lib (argName code) (functionBody code) of
             None \<Rightarrow> (Inr (VFunction (argName code) (functionBody code)), st)
           | Some reason \<Rightarrow> (Inl (Resolver (FunctionCompileError code reason)), st))
      | _ \<Rightarrow> (Inl (Resolver OutsideModel), st))"

text \<open>
  One round of the tail loop (lines 135 to 142).  The current \<^verbatim>\<open>schema\<close> is whatever the
  last call returned; reading a property of \<^verbatim>\<open>undefined\<close> or \<^verbatim>\<open>null\<close> throws a
  \<^verbatim>\<open>TypeError\<close>.
\<close>

definition tailStepWith ::
  "(json \<Rightarrow> 'v resolver_state \<Rightarrow> 'v result) \<Rightarrow> 'v thunks \<Rightarrow> 'v library \<Rightarrow> string \<Rightarrow> json
     \<Rightarrow> 'v jsval \<Rightarrow> 'v resolver_state \<Rightarrow> 'v result" where
  "tailStepWith parse force lib base entry current s =
     (case entry of
        JArr (JStr tailMethodName # rest) \<Rightarrow>
          if current = VUndefined \<or> current = VNull then (Inl (Uncaught ''TypeError''), s)
          else
            (case lib_member lib current tailMethodName of
               None \<Rightarrow> (Inl (Resolver (UnknownTailMethod tailMethodName base)), s)
             | Some tailMethodFn \<Rightarrow>
                 (case argumentsWith parse (case rest of [] \<Rightarrow> None | p # others \<Rightarrow> Some p) s of
                    (Inl e, s') \<Rightarrow> (Inl e, s')
                  | (Inr parsedTailParams, s') \<Rightarrow> run force (tailMethodFn parsedTailParams) s'))
      | _ \<Rightarrow> (Inl (Resolver OutsideModel), s))"

definition assignPropertyWith ::
  "(json \<Rightarrow> 's \<Rightarrow> (failure + 'v jsval) \<times> 's) \<Rightarrow> string \<times> json
     \<Rightarrow> 'v jsval option \<times> (string \<times> 'v jsval) list \<Rightarrow> 's
     \<Rightarrow> (failure + 'v jsval option \<times> (string \<times> 'v jsval) list) \<times> 's" where
  "assignPropertyWith parse property result s =
     (case parse (snd property) s of
        (Inl e, s') \<Rightarrow> (Inl e, s')
      | (Inr v, s') \<Rightarrow>
          (case js_set result (fst property) v of
             Inl e \<Rightarrow> (Inl (Resolver e), s')
           | Inr result' \<Rightarrow> (Inr result', s')))"

lemma argumentsWith_cong [fundef_cong]:
  "p = q \<Longrightarrow> s = t \<Longrightarrow> (\<And>params u. q = Some params \<Longrightarrow> f params u = g params u)
     \<Longrightarrow> argumentsWith f p s = argumentsWith g q t"
  by (auto simp: argumentsWith_def split: option.splits)

lemma tailStepWith_cong [fundef_cong]:
  "entry = entry' \<Longrightarrow> current = current' \<Longrightarrow> s = t
     \<Longrightarrow> (\<And>name p others u. entry' = JArr (name # p # others) \<Longrightarrow> f p u = g p u)
     \<Longrightarrow> tailStepWith f force lib base entry current s
          = tailStepWith g force lib base entry' current' t"
  by (auto simp: tailStepWith_def argumentsWith_def split: json.splits list.splits option.splits)

lemma assignPropertyWith_cong [fundef_cong]:
  "property = property' \<Longrightarrow> result = result' \<Longrightarrow> s = t
     \<Longrightarrow> (\<And>u. f (snd property') u = g (snd property') u)
     \<Longrightarrow> assignPropertyWith f property result s = assignPropertyWith g property' result' t"
  by (simp add: assignPropertyWith_def)

text \<open>
  \<^verbatim>\<open>parseNode\<close> (lines 51 to 156) once more, with the calls of line 131 and line 141 run as
  effects: a call that throws ends \<^verbatim>\<open>parseNode\<close> with what it threw, and the value a node
  gives is the value that the last call returned, whatever it is.  \<open>force\<close> runs the thunk
  of a handle.
\<close>

function parseNodeWith ::
  "'v thunks \<Rightarrow> 'v library \<Rightarrow> ZodJsonRoot \<Rightarrow> json \<Rightarrow> 'v resolver_state \<Rightarrow> 'v result" where
  "parseNodeWith force lib root JNull st = (Inr VNull, st)"
| "parseNodeWith force lib root (JBool b) st = (Inr (VBool b), st)"
| "parseNodeWith force lib root (JNum n) st = (Inr (VNum n), st)"
| "parseNodeWith force lib root (JStr s) st = (Inr (VStr s), st)"
| "parseNodeWith force lib root (JArr items) st =
     (case map_items (\<lambda>item. parseNodeWith force lib root item) items st of
        (Inl e, st') \<Rightarrow> (Inl e, st')
      | (Inr vs, st') \<Rightarrow> (Inr (VArr vs), st'))"
| "parseNodeWith force lib root (JObj node) st =
     (if isRef node then resolver_outcome (referenceBranch root node st)
      else if isFunction node then functionBranchWith lib node st
      else if isZodJson node then
        (case map_of node ''method'' of
           Some (JStr base) \<Rightarrow>
             (case callable (get (lib_z lib) base) of
                None \<Rightarrow> (Inl (Resolver (UnknownMethod base)), st)
              | Some methodFn \<Rightarrow>
                  (case argumentsWith (\<lambda>params. parseNodeWith force lib root params)
                          (map_of node ''params'') st of
                     (Inl e, st') \<Rightarrow> (Inl e, st')
                   | (Inr params, st') \<Rightarrow>
                       (case run force (methodFn params) st' of
                          (Inl e, st'') \<Rightarrow> (Inl e, st'')
                        | (Inr made, st'') \<Rightarrow>
                            (case map_of node ''tail'' of
                               Some (JArr tail) \<Rightarrow>
                                 for_each
                                   (tailStepWith (\<lambda>p. parseNodeWith force lib root p) force lib base)
                                   tail made st''
                             | _ \<Rightarrow> (Inr made, st'')))))
         | other \<Rightarrow> (Inl (Resolver (InvalidMethod (typeof other))), st))
      else
        (case for_each (assignPropertyWith (\<lambda>child. parseNodeWith force lib root child))
                node (None, []) st of
           (Inl e, st') \<Rightarrow> (Inl e, st')
         | (Inr (proto, props), st') \<Rightarrow> (Inr (VObj proto props), st')))"
  by pat_completeness auto

termination
  apply (relation "measure (\<lambda>(force, lib, root, node, st). size node)")
      apply simp
  subgoal by (simp add: size_member)
  subgoal by (auto dest: size_lookup)
  subgoal by (auto intro: size_tail_param)
  subgoal by (auto dest: size_property)
  done

text \<open>The thunk handed to \<^verbatim>\<open>z.lazy\<close> for \<open>refId\<close> (lines 84 to 93), as \<open>lazyThunk\<close>.\<close>

definition lazyThunkWith ::
  "'v thunks \<Rightarrow> 'v library \<Rightarrow> ZodJsonRoot \<Rightarrow> string \<Rightarrow> 'v resolver_state \<Rightarrow> 'v result" where
  "lazyThunkWith force lib root refId st =
     (case definitions root of
        None \<Rightarrow> (Inl (Resolver (UnresolvedDefinitionsContainer refId)), st)
      | Some defs \<Rightarrow>
          (case js_get defs refId of
             Own definition \<Rightarrow>
               if truthy definition then parseNodeWith force lib root definition st
               else (Inl (Resolver (UnknownDefinition refId)), st)
           | Inherited \<Rightarrow>
               if refId = ''__proto__'' then (Inr (VObj None []), st)
               else (Inr (VBuiltin refId), st)
           | Missing \<Rightarrow> (Inl (Resolver (UnknownDefinition refId)), st)))"

text \<open>
  The thunks that may be forced inside one another \<open>fuel\<close> deep: a thunk runs
  \<^verbatim>\<open>parseNode\<close> on its definition, whose library calls may force thunks in turn.
\<close>

primrec forcing :: "nat \<Rightarrow> 'v library \<Rightarrow> ZodJsonRoot \<Rightarrow> 'v thunks" where
  "forcing 0 lib root = (\<lambda>refId st. (Inl OutOfFuel, st))"
| "forcing (Suc fuel) lib root = lazyThunkWith (forcing fuel lib root) lib root"

text \<open>\<^verbatim>\<open>fromZodJson\<close> (lines 38 to 160) with such a library.\<close>

definition fromZodJsonWith :: "nat \<Rightarrow> 'v library \<Rightarrow> ZodJsonRoot \<Rightarrow> 'v result" where
  "fromZodJsonWith fuel lib root =
     parseNodeWith (forcing fuel lib root) lib root (schema root) empty_state"

subsection \<open>The sample library, with \<^verbatim>\<open>parse\<close>\<close>

text \<open>
  The sample library with the members that show the three effects.  Every instance has
  \<^verbatim>\<open>parse\<close>, which returns the value it is given when the schema accepts it and throws
  otherwise, and which forces a lazy handle that it must look into.  \<^verbatim>\<open>z.string.call\<close> is
  \<^verbatim>\<open>Function.prototype.call\<close>, which throws a \<^verbatim>\<open>TypeError\<close> when it is called detached
  from a function.
\<close>

fun sample_check :: "sample \<Rightarrow> sample jsval \<Rightarrow> sample effect" where
  "sample_check (SLazy h refId) v =
     Forces refId (\<lambda>r. case r of
                          Inl e \<Rightarrow> Raises e
                        | Inr inner \<Rightarrow> if accepts (as_schema inner) v then Returns v
                                       else Raises (Uncaught ''ZodError''))"
| "sample_check (SArray (SLazy h refId)) (VArr (x # xs)) =
     Forces refId (\<lambda>r. case r of
                          Inl e \<Rightarrow> Raises e
                        | Inr inner \<Rightarrow> if list_all (accepts (as_schema inner)) (x # xs)
                                       then Returns (VArr (x # xs))
                                       else Raises (Uncaught ''ZodError''))"
| "sample_check s v = (if accepts s v then Returns v else Raises (Uncaught ''ZodError''))"

definition sample_parse :: "sample \<Rightarrow> sample jsval list \<Rightarrow> sample effect" where
  "sample_parse s args = sample_check s (case args of [] \<Rightarrow> VUndefined | v # others \<Rightarrow> v)"

text \<open>A function of the library that keeps to the contract: it returns an instance.\<close>

definition returning :: "('v jsval list \<Rightarrow> 'v) \<Rightarrow> 'v jsval list \<Rightarrow> 'v effect" where
  "returning f args = Returns (VInst (f args))"

definition sample_library :: "sample library" where
  "sample_library =
     \<lparr>lib_z =
        Surface None
          [(''string'', Surface (Some (returning (\<lambda>vs. SString)))
                          [(''call'', Surface (Some (\<lambda>vs. Raises (Uncaught ''TypeError''))) [])]),
           (''number'', Surface (Some (returning (\<lambda>vs. SNumber))) []),
           (''array'', Surface (Some (returning sample_array)) []),
           (''object'', Surface (Some (returning sample_object)) []),
           (''coerce'', Surface None [(''string'', Surface (Some (returning (\<lambda>vs. SString))) [])])],
      lib_member =
        (\<lambda>v name. case v of
                     VInst s \<Rightarrow> if name = ''parse'' then Some (sample_parse s)
                                else map_option returning (sample_member s name)
                   | _ \<Rightarrow> None),
      lib_newFunction = sample_newFunction\<rparr>"

subsection \<open>A library that keeps the contract\<close>

text \<open>
  The library of an \<open>env\<close>, whose functions return an instance, as a library with effects.
  On it the resolver of this section is \<^verbatim>\<open>parseNode\<close> as modelled above (lemma
  \<open>parseNodeWith_contract\<close>): what is shown there of \<open>parseNode\<close>, \<open>lazyThunk\<close> and
  \<open>fromZodJson\<close> is shown of the resolver run with any library that keeps the contract.
\<close>

definition contract :: "'v env \<Rightarrow> 'v library" where
  "contract env =
     \<lparr>lib_z = map_surface returning (z env),
      lib_member =
        (\<lambda>v name. case v of
                     VInst inst \<Rightarrow> map_option returning (member env inst name)
                   | _ \<Rightarrow> None),
      lib_newFunction = newFunction env\<rparr>"

text \<open>The outcome of a step that gives an instance.\<close>

definition instance_outcome :: "(error + 'v) \<times> 's \<Rightarrow> (failure + 'v jsval) \<times> 's" where
  "instance_outcome r =
     (case r of (Inl e, s) \<Rightarrow> (Inl (Resolver e), s) | (Inr v, s) \<Rightarrow> (Inr (VInst v), s))"

lemma resolver_outcome_simps:
  "resolver_outcome (Inl e, s) = (Inl (Resolver e), s)"
  "resolver_outcome (Inr v, s) = (Inr v, s)"
  by (simp_all add: resolver_outcome_def)

lemma instance_outcome_simps:
  "instance_outcome (Inl e, s) = (Inl (Resolver e), s)"
  "instance_outcome (Inr v, s) = (Inr (VInst v), s)"
  by (simp_all add: instance_outcome_def)

lemma get_map_surface:
  "get (map_surface g obj) path = map_option (map_surface g) (get obj path)"
proof -
  have step: "foldl (\<lambda>acc part. case acc of
                          None \<Rightarrow> None
                        | Some (Surface call members) \<Rightarrow> map_of members part)
                (map_option (map_surface g) acc) parts
      = map_option (map_surface g)
          (foldl (\<lambda>acc part. case acc of
                          None \<Rightarrow> None
                        | Some (Surface call members) \<Rightarrow> map_of members part) acc parts)"
    for acc parts
  proof (induction parts arbitrary: acc)
    case Nil
    then show ?case by simp
  next
    case (Cons part parts)
    have "(case map_option (map_surface g) acc of
             None \<Rightarrow> None
           | Some (Surface call members) \<Rightarrow> map_of members part)
        = map_option (map_surface g)
            (case acc of None \<Rightarrow> None | Some (Surface call members) \<Rightarrow> map_of members part)"
      by (auto simp: map_of_map map_prod_def split: option.splits surface.splits)
    then show ?case
      using Cons.IH by simp
  qed
  show ?thesis
    unfolding get_def using step [of "Some obj"] by simp
qed

lemma callable_map_surface:
  "callable (map_option (map_surface g) v) = map_option g (callable v)"
  by (auto simp: callable_def split: option.splits surface.splits)

lemma map_items_resolver:
  "map_items (\<lambda>x s. resolver_outcome (g x s)) xs s = resolver_outcome (map_items g xs s)"
  by (induction xs arbitrary: s) (auto simp: resolver_outcome_def split: prod.splits sum.splits)

lemma for_each_resolver:
  "for_each (\<lambda>x r s. resolver_outcome (body x r s)) xs r s
     = resolver_outcome (for_each body xs r s)"
  by (induction xs arbitrary: r s) (auto simp: resolver_outcome_def split: prod.splits sum.splits)

lemma for_each_instance:
  "(\<And>x r s. x \<in> set xs \<Longrightarrow> body' x (VInst r) s = instance_outcome (body x r s))
     \<Longrightarrow> for_each body' xs (VInst r) s = instance_outcome (for_each body xs r s)"
proof (induction xs arbitrary: r s)
  case Nil
  then show ?case by (simp add: instance_outcome_def)
next
  case (Cons x xs)
  have head: "body' x (VInst r) s = instance_outcome (body x r s)"
    using Cons.prems by simp
  show ?case
  proof (cases "body x r s")
    case (Pair y s1)
    show ?thesis
    proof (cases y)
      case (Inl e)
      then show ?thesis using head Pair by (simp add: instance_outcome_def)
    next
      case (Inr r')
      have "for_each body' xs (VInst r') s1 = instance_outcome (for_each body xs r' s1)"
        using Cons.IH [of r' s1] Cons.prems by simp
      then show ?thesis using head Pair Inr by (simp add: instance_outcome_def)
    qed
  qed
qed

lemma spreadWith_resolver: "spreadWith (resolver_outcome x) = resolver_outcome (spread x)"
  by (cases x rule: spread.cases) (simp_all add: resolver_outcome_def)

lemma argumentsWith_resolver:
  "(\<And>params s. p = Some params \<Longrightarrow> f params s = resolver_outcome (g params s))
     \<Longrightarrow> argumentsWith f p s = resolver_outcome (arguments g p s)"
  by (auto simp: argumentsWith_def arguments_def spreadWith_resolver resolver_outcome_simps
      split: option.splits)

lemma tailStepWith_contract:
  assumes "\<And>name p others s. entry = JArr (name # p # others) \<Longrightarrow> f p s = resolver_outcome (g p s)"
  shows "tailStepWith f force (contract env) base entry (VInst current) s
           = instance_outcome (tailStep g env base entry current s)"
proof (cases "\<exists>name rest tailMethodFn. entry = JArr (JStr name # rest)
    \<and> member env current name = Some tailMethodFn")
  case True
  then obtain name rest tailMethodFn where e: "entry = JArr (JStr name # rest)"
    "member env current name = Some tailMethodFn" by blast
  let ?po = "case rest of [] \<Rightarrow> None | p # others \<Rightarrow> Some p"
  have "argumentsWith f ?po s = resolver_outcome (arguments g ?po s)"
  proof (rule argumentsWith_resolver)
    fix params t
    assume "?po = Some params"
    then show "f params t = resolver_outcome (g params t)"
      using assms [of "JStr name" params _ t] e(1) by (cases rest) auto
  qed
  then show ?thesis
    using e
    by (auto simp: tailStepWith_def tailStep_def contract_def returning_def instance_outcome_def
        resolver_outcome_def split: prod.splits sum.splits)
next
  case False
  then show ?thesis
    by (auto simp: tailStepWith_def tailStep_def contract_def instance_outcome_def
        split: json.splits list.splits option.splits)
qed

lemma assignPropertyWith_resolver:
  "(\<And>s. f (snd property) s = resolver_outcome (g (snd property) s))
     \<Longrightarrow> assignPropertyWith f property result s
           = resolver_outcome (assignProperty g property result s)"
  by (auto simp: assignPropertyWith_def assignProperty_def resolver_outcome_def
      split: prod.splits sum.splits)

lemma functionBranchWith_contract:
  "functionBranchWith (contract env) node st = resolver_outcome (functionBranch env node st)"
  by (auto simp: functionBranchWith_def functionBranch_def contract_def resolver_outcome_def
      split: option.splits json.splits)

lemma parseNodeWith_contract:
  "parseNodeWith force (contract env) root n st = resolver_outcome (parseNode env root n st)"
proof (induction n arbitrary: st rule: measure_induct_rule [of size])
  case (less n)
  show ?case
  proof (cases n)
    case (JArr items)
    have "map_items (\<lambda>item. parseNodeWith force (contract env) root item) items st
        = map_items (\<lambda>item s. resolver_outcome (parseNode env root item s)) items st"
      by (rule map_items_cong) (use less.IH JArr size_member [of _ items size] in auto)
    moreover obtain y s1 where "map_items (\<lambda>item. parseNode env root item) items st = (y, s1)"
      by (cases "map_items (\<lambda>item. parseNode env root item) items st")
    ultimately show ?thesis
      using JArr by (cases y) (simp_all add: map_items_resolver resolver_outcome_simps)
  next
    case (JObj node)
    consider (reference) "isRef node"
      | (compiled) "\<not> isRef node" "isFunction node"
      | (zodJson) "\<not> isRef node" "\<not> isFunction node" "isZodJson node"
      | (mapping) "\<not> isRef node" "\<not> isFunction node" "\<not> isZodJson node"
      by blast
    then show ?thesis
    proof cases
      case reference
      then show ?thesis using JObj by simp
    next
      case compiled
      then show ?thesis using JObj by (simp add: functionBranchWith_contract)
    next
      case zodJson
      have args: "argumentsWith (\<lambda>params. parseNodeWith force (contract env) root params)
            (map_of node ''params'') st
          = resolver_outcome
              (arguments (\<lambda>params. parseNode env root params) (map_of node ''params'') st)"
      proof (rule argumentsWith_resolver)
        fix params s
        assume "map_of node ''params'' = Some params"
        then show "parseNodeWith force (contract env) root params s
            = resolver_outcome (parseNode env root params s)"
          using less.IH [of params s] JObj size_lookup [of node "''params''" params] by simp
      qed
      have loop: "for_each
            (tailStepWith (\<lambda>p. parseNodeWith force (contract env) root p) force (contract env) m)
            tail (VInst made) s
          = instance_outcome (for_each (tailStep (\<lambda>p. parseNode env root p) env m) tail made s)"
        if t: "map_of node ''tail'' = Some (JArr tail)" for tail m made s
      proof (rule for_each_instance)
        fix entry current u
        assume entry: "entry \<in> set tail"
        show "tailStepWith (\<lambda>p. parseNodeWith force (contract env) root p) force (contract env) m
                entry (VInst current) u
            = instance_outcome (tailStep (\<lambda>p. parseNode env root p) env m entry current u)"
        proof (rule tailStepWith_contract)
          fix name p others v
          assume "entry = JArr (name # p # others)"
          then show "parseNodeWith force (contract env) root p v
              = resolver_outcome (parseNode env root p v)"
            using less.IH [of p v] JObj size_tail_param [OF t, of name p others] entry by simp
        qed
      qed
      have lookup: "callable (get (lib_z (contract env)) m) = map_option returning (callable (get (z env) m))"
        for m
        by (simp add: contract_def get_map_surface callable_map_surface)
      show ?thesis
        using JObj zodJson args loop lookup
        by (auto simp: resolver_outcome_def instance_outcome_def returning_def
            split: option.splits json.splits prod.splits sum.splits)
    next
      case mapping
      have "for_each (assignPropertyWith (\<lambda>child. parseNodeWith force (contract env) root child))
            node (None, []) st
          = for_each (\<lambda>property result s. resolver_outcome
                (assignProperty (\<lambda>child. parseNode env root child) property result s))
              node (None, []) st"
      proof (rule for_each_cong)
        fix property result u
        assume property: "property \<in> set node"
        show "assignPropertyWith (\<lambda>child. parseNodeWith force (contract env) root child)
                property result u
            = resolver_outcome (assignProperty (\<lambda>child. parseNode env root child) property result u)"
        proof (rule assignPropertyWith_resolver)
          fix s
          show "parseNodeWith force (contract env) root (snd property) s
              = resolver_outcome (parseNode env root (snd property) s)"
            using less.IH [of "snd property" s] JObj size_property [OF property] by simp
        qed
      qed simp_all
      moreover obtain y s1 where
        "for_each (assignProperty (\<lambda>child. parseNode env root child)) node (None, []) st = (y, s1)"
        by (cases "for_each (assignProperty (\<lambda>child. parseNode env root child)) node (None, []) st")
      ultimately show ?thesis
        using JObj mapping
        by (cases y) (auto simp: for_each_resolver resolver_outcome_simps)
    qed
  qed (simp_all add: resolver_outcome_def)
qed

lemma fromZodJsonWith_contract:
  "fromZodJsonWith fuel (contract env) root = resolver_outcome (fromZodJson env root)"
  by (simp add: fromZodJsonWith_def fromZodJson_def parseNodeWith_contract)

lemma lazyThunkWith_contract:
  "lazyThunkWith force (contract env) root refId st = resolver_outcome (lazyThunk env root refId st)"
  by (auto simp: lazyThunkWith_def lazyThunk_def parseNodeWith_contract resolver_outcome_def
      split: option.splits property.splits)

subsection \<open>The bound on nested thunks\<close>

text \<open>
  An outcome other than \<open>OutOfFuel\<close> does not depend on the bound: with thunks that settle
  at least as much, every call settles in the same way, and so does \<^verbatim>\<open>fromZodJson\<close> with
  any larger bound (lemma \<open>enough_fuel\<close>).
\<close>

lemma run_settled:
  assumes "\<And>refId s r s'. force refId s = (r, s') \<Longrightarrow> r \<noteq> Inl OutOfFuel \<Longrightarrow> force' refId s = (r, s')"
  shows "run force call st = (r, st') \<Longrightarrow> r \<noteq> Inl OutOfFuel \<Longrightarrow> run force' call st = (r, st')"
proof (induction call arbitrary: st)
  case (Returns v)
  then show ?case by simp
next
  case (Raises e)
  then show ?case by simp
next
  case (Forces refId k)
  obtain r1 s1 where thunk: "force refId st = (r1, s1)"
    by (cases "force refId st")
  have settled: "r1 \<noteq> Inl OutOfFuel"
    using Forces.prems thunk by auto
  then have "force' refId st = (r1, s1)"
    using assms thunk by simp
  moreover have "run force' (k r1) s1 = (r, st')"
    using Forces.IH [of "k r1" s1] Forces.prems thunk settled by simp
  ultimately show ?case
    using settled by simp
qed

lemma map_items_settled:
  assumes "\<And>x s r s'. x \<in> set xs \<Longrightarrow> f x s = (r, s') \<Longrightarrow> r \<noteq> Inl OutOfFuel \<Longrightarrow> f' x s = (r, s')"
  shows "map_items f xs s = (r, s') \<Longrightarrow> r \<noteq> Inl OutOfFuel \<Longrightarrow> map_items f' xs s = (r, s')"
  using assms
proof (induction xs arbitrary: s r s')
  case Nil
  then show ?case by simp
next
  case (Cons x xs)
  obtain y s1 where head: "f x s = (y, s1)"
    by (cases "f x s")
  show ?case
  proof (cases y)
    case (Inl e)
    then have "e \<noteq> OutOfFuel" and "r = Inl e" and "s' = s1"
      using Cons.prems(1,2) head by auto
    then have "f' x s = (Inl e, s1)"
      using Cons.prems(3) [of x s y s1] head Inl by simp
    then show ?thesis
      using \<open>r = Inl e\<close> \<open>s' = s1\<close> by simp
  next
    case (Inr v)
    then have head': "f' x s = (Inr v, s1)"
      using Cons.prems(3) [of x s y s1] head by simp
    obtain ys s2 where rest: "map_items f xs s1 = (ys, s2)"
      by (cases "map_items f xs s1")
    have "ys \<noteq> Inl OutOfFuel"
      using Cons.prems(1,2) head Inr rest by (auto split: sum.splits)
    have "map_items f' xs s1 = (ys, s2)"
    proof (rule Cons.IH [OF rest \<open>ys \<noteq> Inl OutOfFuel\<close>])
      fix x' t q t'
      assume "x' \<in> set xs" "f x' t = (q, t')" "q \<noteq> Inl OutOfFuel"
      then show "f' x' t = (q, t')"
        using Cons.prems(3) [of x' t q t'] by simp
    qed
    then show ?thesis
      using Cons.prems(1) head head' Inr rest by simp
  qed
qed

lemma for_each_settled:
  assumes "\<And>x a s r s'. x \<in> set xs \<Longrightarrow> body x a s = (r, s') \<Longrightarrow> r \<noteq> Inl OutOfFuel
             \<Longrightarrow> body' x a s = (r, s')"
  shows "for_each body xs a s = (r, s') \<Longrightarrow> r \<noteq> Inl OutOfFuel \<Longrightarrow> for_each body' xs a s = (r, s')"
  using assms
proof (induction xs arbitrary: a s)
  case Nil
  then show ?case by simp
next
  case (Cons x xs)
  obtain y s1 where head: "body x a s = (y, s1)"
    by (cases "body x a s")
  show ?case
  proof (cases y)
    case (Inl e)
    then have "r = Inl e" and "s' = s1"
      using Cons.prems(1) head by auto
    then have "body' x a s = (Inl e, s1)"
      using Cons.prems(3) [of x a s y s1] Cons.prems(2) head Inl by simp
    then show ?thesis
      using \<open>r = Inl e\<close> \<open>s' = s1\<close> by simp
  next
    case (Inr a')
    then have head': "body' x a s = (Inr a', s1)"
      using Cons.prems(3) [of x a s y s1] head by simp
    have rest: "for_each body xs a' s1 = (r, s')"
      using Cons.prems(1) head Inr by simp
    have "for_each body' xs a' s1 = (r, s')"
    proof (rule Cons.IH [OF rest Cons.prems(2)])
      fix x' b t q t'
      assume "x' \<in> set xs" "body x' b t = (q, t')" "q \<noteq> Inl OutOfFuel"
      then show "body' x' b t = (q, t')"
        using Cons.prems(3) [of x' b t q t'] by simp
    qed
    then show ?thesis
      using head' by simp
  qed
qed

lemma spreadWith_settled:
  "spreadWith x = (r, s') \<Longrightarrow> r \<noteq> Inl OutOfFuel \<Longrightarrow> fst x \<noteq> Inl OutOfFuel"
  by (cases x rule: spreadWith.cases) auto

lemma argumentsWith_settled:
  assumes "\<And>params s r s'. p = Some params \<Longrightarrow> f params s = (r, s') \<Longrightarrow> r \<noteq> Inl OutOfFuel
             \<Longrightarrow> f' params s = (r, s')"
    and "argumentsWith f p s = (r, s')" and "r \<noteq> Inl OutOfFuel"
  shows "argumentsWith f' p s = (r, s')"
proof (cases "\<exists>params. p = Some params \<and> truthy params")
  case True
  then obtain params where p: "p = Some params" "truthy params" by blast
  obtain y s1 where parsed: "f params s = (y, s1)"
    by (cases "f params s")
  have "y \<noteq> Inl OutOfFuel"
    using spreadWith_settled [of "f params s" r s'] assms(2,3) p parsed
    by (simp add: argumentsWith_def)
  then have "f' params s = (y, s1)"
    using assms(1) [OF p(1) parsed] by simp
  then show ?thesis
    using assms(2) p parsed by (simp add: argumentsWith_def)
next
  case False
  then show ?thesis
    using assms(2) by (auto simp: argumentsWith_def split: option.splits)
qed

lemma tailStepWith_settled:
  assumes parse: "\<And>name p others s r s'. entry = JArr (name # p # others) \<Longrightarrow> f p s = (r, s')
             \<Longrightarrow> r \<noteq> Inl OutOfFuel \<Longrightarrow> f' p s = (r, s')"
    and force: "\<And>refId s r s'. force refId s = (r, s') \<Longrightarrow> r \<noteq> Inl OutOfFuel
             \<Longrightarrow> force' refId s = (r, s')"
    and step: "tailStepWith f force lib base entry current s = (r, s')"
    and settled: "r \<noteq> Inl OutOfFuel"
  shows "tailStepWith f' force' lib base entry current s = (r, s')"
proof (cases "\<exists>name rest tailMethodFn. entry = JArr (JStr name # rest) \<and> current \<noteq> VUndefined
    \<and> current \<noteq> VNull \<and> lib_member lib current name = Some tailMethodFn")
  case True
  then obtain name rest tailMethodFn where e: "entry = JArr (JStr name # rest)"
    "current \<noteq> VUndefined" "current \<noteq> VNull" "lib_member lib current name = Some tailMethodFn"
    by blast
  let ?po = "case rest of [] \<Rightarrow> None | p # others \<Rightarrow> Some p"
  obtain a s1 where args: "argumentsWith f ?po s = (a, s1)"
    by (cases "argumentsWith f ?po s")
  have a: "a \<noteq> Inl OutOfFuel"
    using step settled e args by (auto simp: tailStepWith_def)
  have args': "argumentsWith f' ?po s = (a, s1)"
  proof (rule argumentsWith_settled [OF _ args a])
    fix params t q t'
    assume "?po = Some params" "f params t = (q, t')" "q \<noteq> Inl OutOfFuel"
    then show "f' params t = (q, t')"
      using parse [of "JStr name" params _ t q t'] e(1) by (cases rest) auto
  qed
  show ?thesis
  proof (cases a)
    case (Inl x)
    then show ?thesis
      using step e args args' by (simp add: tailStepWith_def)
  next
    case (Inr ps)
    then have "run force (tailMethodFn ps) s1 = (r, s')"
      using step e args by (simp add: tailStepWith_def)
    then have "run force' (tailMethodFn ps) s1 = (r, s')"
      using run_settled [of force force'] force settled by blast
    then show ?thesis
      using e args' Inr by (simp add: tailStepWith_def)
  qed
next
  case False
  then show ?thesis
    using step
    by (auto simp: tailStepWith_def split: json.splits list.splits option.splits if_splits)
qed

lemma assignPropertyWith_settled:
  assumes "\<And>s r s'. f (snd property) s = (r, s') \<Longrightarrow> r \<noteq> Inl OutOfFuel
             \<Longrightarrow> f' (snd property) s = (r, s')"
    and "assignPropertyWith f property result s = (r, s')" and "r \<noteq> Inl OutOfFuel"
  shows "assignPropertyWith f' property result s = (r, s')"
proof -
  obtain y s1 where parsed: "f (snd property) s = (y, s1)"
    by (cases "f (snd property) s")
  have "y \<noteq> Inl OutOfFuel"
    using assms(2,3) parsed by (auto simp: assignPropertyWith_def)
  then have "f' (snd property) s = (y, s1)"
    using assms(1) parsed by simp
  then show ?thesis
    using assms(2) parsed by (simp add: assignPropertyWith_def)
qed

lemma parseNodeWith_settled:
  assumes force: "\<And>refId s r s'. force refId s = (r, s') \<Longrightarrow> r \<noteq> Inl OutOfFuel
             \<Longrightarrow> force' refId s = (r, s')"
  shows "parseNodeWith force lib root n st = (r, st') \<Longrightarrow> r \<noteq> Inl OutOfFuel
           \<Longrightarrow> parseNodeWith force' lib root n st = (r, st')"
proof (induction n arbitrary: st r st' rule: measure_induct_rule [of size])
  case (less n)
  show ?case
  proof (cases n)
    case (JArr items)
    obtain y s1 where items: "map_items (\<lambda>item. parseNodeWith force lib root item) items st = (y, s1)"
      by (cases "map_items (\<lambda>item. parseNodeWith force lib root item) items st")
    have y: "y \<noteq> Inl OutOfFuel"
      using less.prems JArr items by (auto split: sum.splits)
    have "map_items (\<lambda>item. parseNodeWith force' lib root item) items st = (y, s1)"
    proof (rule map_items_settled [OF _ items y])
      fix x s q s'
      assume "x \<in> set items" "parseNodeWith force lib root x s = (q, s')" "q \<noteq> Inl OutOfFuel"
      then show "parseNodeWith force' lib root x s = (q, s')"
        using less.IH [of x s q s'] JArr size_member [of x items size] by simp
    qed
    then show ?thesis
      using less.prems(1) JArr items by simp
  next
    case (JObj node)
    consider (reference) "isRef node"
      | (compiled) "\<not> isRef node" "isFunction node"
      | (zodJson) "\<not> isRef node" "\<not> isFunction node" "isZodJson node"
      | (mapping) "\<not> isRef node" "\<not> isFunction node" "\<not> isZodJson node"
      by blast
    then show ?thesis
    proof cases
      case reference
      then show ?thesis using less.prems(1) JObj by simp
    next
      case compiled
      then show ?thesis using less.prems(1) JObj by simp
    next
      case zodJson
      show ?thesis
      proof (cases "\<exists>m f. map_of node ''method'' = Some (JStr m) \<and> callable (get (lib_z lib) m) = Some f")
        case False
        then show ?thesis
          using less.prems(1) JObj zodJson by (auto split: option.splits json.splits)
      next
        case True
        then obtain m f where m: "map_of node ''method'' = Some (JStr m)"
          "callable (get (lib_z lib) m) = Some f" by blast
        obtain a s1 where args:
          "argumentsWith (\<lambda>params. parseNodeWith force lib root params) (map_of node ''params'') st
             = (a, s1)"
          by (cases "argumentsWith (\<lambda>params. parseNodeWith force lib root params)
                (map_of node ''params'') st")
        have a: "a \<noteq> Inl OutOfFuel"
          using less.prems JObj zodJson m args by auto
        have args': "argumentsWith (\<lambda>params. parseNodeWith force' lib root params)
            (map_of node ''params'') st = (a, s1)"
        proof (rule argumentsWith_settled [OF _ args a])
          fix p s q s'
          assume "map_of node ''params'' = Some p" "parseNodeWith force lib root p s = (q, s')"
            "q \<noteq> Inl OutOfFuel"
          then show "parseNodeWith force' lib root p s = (q, s')"
            using less.IH [of p s q s'] JObj size_lookup [of node "''params''" p] by simp
        qed
        show ?thesis
        proof (cases a)
          case (Inl e)
          then show ?thesis
            using less.prems(1) JObj zodJson m args args' by simp
        next
          case (Inr ps)
          obtain b s2 where made: "run force (f ps) s1 = (b, s2)"
            by (cases "run force (f ps) s1")
          have b: "b \<noteq> Inl OutOfFuel"
            using less.prems JObj zodJson m args Inr made by auto
          have made': "run force' (f ps) s1 = (b, s2)"
            using run_settled [of force force'] force made b by blast
          show ?thesis
          proof (cases "\<exists>v tail. b = Inr v \<and> map_of node ''tail'' = Some (JArr tail)")
            case False
            then show ?thesis
              using less.prems(1) JObj zodJson m args args' Inr made made'
              by (auto split: option.splits json.splits sum.splits)
          next
            case True
            then obtain v tail where t: "b = Inr v" "map_of node ''tail'' = Some (JArr tail)"
              by blast
            have loop: "for_each (tailStepWith (\<lambda>p. parseNodeWith force lib root p) force lib m)
                tail v s2 = (r, st')"
              using less.prems(1) JObj zodJson m args Inr made t by simp
            have "for_each (tailStepWith (\<lambda>p. parseNodeWith force' lib root p) force' lib m)
                tail v s2 = (r, st')"
            proof (rule for_each_settled [OF _ loop less.prems(2)])
              fix entry current s q s'
              assume entry: "entry \<in> set tail"
                and step: "tailStepWith (\<lambda>p. parseNodeWith force lib root p) force lib m
                    entry current s = (q, s')"
                and q: "q \<noteq> Inl OutOfFuel"
              show "tailStepWith (\<lambda>p. parseNodeWith force' lib root p) force' lib m
                    entry current s = (q, s')"
              proof (rule tailStepWith_settled [OF _ _ step q])
                fix name p others u w u'
                assume "entry = JArr (name # p # others)"
                  "parseNodeWith force lib root p u = (w, u')" "w \<noteq> Inl OutOfFuel"
                then show "parseNodeWith force' lib root p u = (w, u')"
                  using less.IH [of p u w u'] JObj
                    size_tail_param [OF t(2), of name p others] entry
                  by simp
              next
                fix refId u w u'
                assume "force refId u = (w, u')" "w \<noteq> Inl OutOfFuel"
                then show "force' refId u = (w, u')"
                  using force by simp
              qed
            qed
            then show ?thesis
              using JObj zodJson m args' Inr made' t by simp
          qed
        qed
      qed
    next
      case mapping
      obtain y s1 where loop:
        "for_each (assignPropertyWith (\<lambda>child. parseNodeWith force lib root child))
           node (None, []) st = (y, s1)"
        by (cases "for_each (assignPropertyWith (\<lambda>child. parseNodeWith force lib root child))
              node (None, []) st")
      have y: "y \<noteq> Inl OutOfFuel"
        using less.prems JObj mapping loop by (auto split: sum.splits prod.splits)
      have "for_each (assignPropertyWith (\<lambda>child. parseNodeWith force' lib root child))
           node (None, []) st = (y, s1)"
      proof (rule for_each_settled [OF _ loop y])
        fix property result s q s'
        assume property: "property \<in> set node"
          and step: "assignPropertyWith (\<lambda>child. parseNodeWith force lib root child)
              property result s = (q, s')"
          and q: "q \<noteq> Inl OutOfFuel"
        show "assignPropertyWith (\<lambda>child. parseNodeWith force' lib root child)
              property result s = (q, s')"
        proof (rule assignPropertyWith_settled [OF _ step q])
          fix u w u'
          assume "parseNodeWith force lib root (snd property) u = (w, u')" "w \<noteq> Inl OutOfFuel"
          then show "parseNodeWith force' lib root (snd property) u = (w, u')"
            using less.IH [of "snd property" u w u'] JObj size_property [OF property] by simp
        qed
      qed
      then show ?thesis
        using less.prems(1) JObj mapping loop by simp
    qed
  qed (use less.prems in auto)
qed

lemma lazyThunkWith_settled:
  assumes "\<And>refId s r s'. force refId s = (r, s') \<Longrightarrow> r \<noteq> Inl OutOfFuel
             \<Longrightarrow> force' refId s = (r, s')"
    and "lazyThunkWith force lib root refId st = (r, st')" and "r \<noteq> Inl OutOfFuel"
  shows "lazyThunkWith force' lib root refId st = (r, st')"
  using assms(2,3) parseNodeWith_settled [of force force', OF assms(1)]
  by (auto simp: lazyThunkWith_def split: option.splits property.splits if_splits)

lemma forcing_Suc:
  "forcing fuel lib root refId st = (r, st') \<Longrightarrow> r \<noteq> Inl OutOfFuel
     \<Longrightarrow> forcing (Suc fuel) lib root refId st = (r, st')"
proof (induction fuel arbitrary: refId st r st')
  case 0
  then show ?case by simp
next
  case (Suc fuel)
  have "lazyThunkWith (forcing (Suc fuel) lib root) lib root refId st = (r, st')"
  proof (rule lazyThunkWith_settled [of "forcing fuel lib root"])
    show "lazyThunkWith (forcing fuel lib root) lib root refId st = (r, st')"
      using Suc.prems(1) by simp
  qed (use Suc in auto)
  then show ?case by simp
qed

lemma forcing_more:
  "forcing fuel lib root refId st = (r, st') \<Longrightarrow> r \<noteq> Inl OutOfFuel
     \<Longrightarrow> forcing (fuel + more_fuel) lib root refId st = (r, st')"
  by (induction more_fuel) (auto dest: forcing_Suc)

lemma enough_fuel:
  assumes "fromZodJsonWith fuel lib root = (r, st')" and "r \<noteq> Inl OutOfFuel"
  shows "fromZodJsonWith (fuel + more_fuel) lib root = (r, st')"
  using assms parseNodeWith_settled [of "forcing fuel lib root" "forcing (fuel + more_fuel) lib root"]
    forcing_more [of fuel lib root]
  unfolding fromZodJsonWith_def by blast

subsection \<open>What the resolver reads of the definitions\<close>

text \<open>
  \<^verbatim>\<open>parseNode\<close> reads \<^verbatim>\<open>root.definitions\<close> in the existence check of a reference and
  nowhere else; the body of a definition is read by the thunk of its handle.  So two
  documents in which the same ids pass the existence check are resolved alike as long as the
  same thunks are forced, and a call of \<^verbatim>\<open>fromZodJson\<close> that settles with the bound 0, in
  which no handle is forced, has the same outcome whatever the bodies of the definitions are.
\<close>

lemma parseNodeWith_definitions:
  assumes "\<And>refId. definitionFound root' refId = definitionFound root refId"
  shows "parseNodeWith force lib root' n st = parseNodeWith force lib root n st"
proof (induction n arbitrary: st rule: measure_induct_rule [of size])
  case (less n)
  show ?case
  proof (cases n)
    case (JArr items)
    have "map_items (\<lambda>item. parseNodeWith force lib root' item) items st
        = map_items (\<lambda>item. parseNodeWith force lib root item) items st"
      by (rule map_items_cong) (use less.IH JArr size_member [of _ items size] in auto)
    then show ?thesis
      using JArr by simp
  next
    case (JObj node)
    have reference: "referenceBranch root' node st = referenceBranch root node st"
      using assms by (auto simp: referenceBranch_def split: option.splits json.splits)
    have args: "argumentsWith (\<lambda>params. parseNodeWith force lib root' params)
          (map_of node ''params'') st
        = argumentsWith (\<lambda>params. parseNodeWith force lib root params) (map_of node ''params'') st"
    proof (rule argumentsWith_cong)
      fix params u
      assume "map_of node ''params'' = Some params"
      then show "parseNodeWith force lib root' params u = parseNodeWith force lib root params u"
        using less.IH [of params u] JObj size_lookup [of node "''params''" params] by simp
    qed simp_all
    have loop: "for_each (tailStepWith (\<lambda>p. parseNodeWith force lib root' p) force lib m) tail v s
        = for_each (tailStepWith (\<lambda>p. parseNodeWith force lib root p) force lib m) tail v s"
      if t: "map_of node ''tail'' = Some (JArr tail)" for tail m v s
    proof (rule for_each_cong)
      fix entry current u
      assume entry: "entry \<in> set tail"
      show "tailStepWith (\<lambda>p. parseNodeWith force lib root' p) force lib m entry current u
          = tailStepWith (\<lambda>p. parseNodeWith force lib root p) force lib m entry current u"
      proof (rule tailStepWith_cong)
        fix name p others w
        assume "entry = JArr (name # p # others)"
        then show "parseNodeWith force lib root' p w = parseNodeWith force lib root p w"
          using less.IH [of p w] JObj size_tail_param [OF t, of name p others] entry by simp
      qed simp_all
    qed simp_all
    have properties:
      "for_each (assignPropertyWith (\<lambda>child. parseNodeWith force lib root' child)) node (None, []) st
        = for_each (assignPropertyWith (\<lambda>child. parseNodeWith force lib root child)) node (None, []) st"
    proof (rule for_each_cong)
      fix property result u
      assume property: "property \<in> set node"
      show "assignPropertyWith (\<lambda>child. parseNodeWith force lib root' child) property result u
          = assignPropertyWith (\<lambda>child. parseNodeWith force lib root child) property result u"
      proof (rule assignPropertyWith_cong)
        fix w
        show "parseNodeWith force lib root' (snd property) w
            = parseNodeWith force lib root (snd property) w"
          using less.IH [of "snd property" w] JObj size_property [OF property] by simp
      qed simp_all
    qed simp_all
    show ?thesis
      using JObj reference args loop properties
      by (simp split: option.splits json.splits prod.splits sum.splits)
  qed simp_all
qed

lemma unforced_definitions:
  assumes "fromZodJsonWith 0 lib root = (r, st')" and "r \<noteq> Inl OutOfFuel"
    and "schema root' = schema root"
    and "\<And>refId. definitionFound root' refId = definitionFound root refId"
  shows "fromZodJsonWith fuel lib root' = (r, st')"
proof -
  have "parseNodeWith (forcing 0 lib root) lib root' (schema root) empty_state
      = parseNodeWith (forcing 0 lib root) lib root (schema root) empty_state"
    by (rule parseNodeWith_definitions [OF assms(4)])
  then have "fromZodJsonWith 0 lib root' = (r, st')"
    using assms(1,3) by (simp add: fromZodJsonWith_def)
  then show ?thesis
    using enough_fuel [of 0 lib root' r st' fuel] assms(2) by simp
qed

section \<open>Errors\<close>

text \<open>An error of a later round ends the loop with that error and the state reached.\<close>

lemma map_items_append:
  "map_items f (xs @ ys) s =
     (case map_items f xs s of
        (Inl e, s') \<Rightarrow> (Inl e, s')
      | (Inr vs, s') \<Rightarrow>
          (case map_items f ys s' of
             (Inl e, s'') \<Rightarrow> (Inl e, s'')
           | (Inr ws, s'') \<Rightarrow> (Inr (vs @ ws), s'')))"
  by (induction xs arbitrary: s) (auto split: prod.splits sum.splits)

lemma map_items_error:
  assumes "map_items f (take i xs) s = (Inr vs, s1)" and "i < length xs"
    and "f (xs ! i) s1 = (Inl e, s2)"
  shows "map_items f xs s = (Inl e, s2)"
proof -
  have "xs = take i xs @ (xs ! i # drop (Suc i) xs)"
    using assms(2) by (simp add: id_take_nth_drop)
  then have "map_items f xs s = map_items f (take i xs @ (xs ! i # drop (Suc i) xs)) s"
    by simp
  also have "\<dots> = (Inl e, s2)"
    unfolding map_items_append using assms(1,3) by simp
  finally show ?thesis .
qed

lemma for_each_error:
  assumes "for_each body (take i xs) r s = (Inr r1, s1)" and "i < length xs"
    and "body (xs ! i) r1 s1 = (Inl e, s2)"
  shows "for_each body xs r s = (Inl e, s2)"
proof -
  have "xs = take i xs @ (xs ! i # drop (Suc i) xs)"
    using assms(2) by (simp add: id_take_nth_drop)
  then have "for_each body xs r s = for_each body (take i xs @ (xs ! i # drop (Suc i) xs)) r s"
    by simp
  also have "\<dots> = (Inl e, s2)"
    unfolding for_each_append using assms(1,3) by simp
  finally show ?thesis .
qed

lemma argumentsWith_error:
  "truthy p \<Longrightarrow> parse p s = (Inl e, s') \<Longrightarrow> argumentsWith parse (Some p) s = (Inl e, s')"
  by (simp add: argumentsWith_def)

lemma tailStepWith_error:
  assumes "current \<noteq> VUndefined" and "current \<noteq> VNull"
    and "lib_member lib current name = Some tailMethodFn" and "truthy p"
    and "parse p s = (Inl e, s')"
  shows "tailStepWith parse force lib base (JArr (JStr name # p # others)) current s = (Inl e, s')"
  using assms by (simp add: tailStepWith_def argumentsWith_def)

lemma tailStepWith_call:
  assumes "current \<noteq> VUndefined" and "current \<noteq> VNull"
    and "lib_member lib current name = Some tailMethodFn"
    and "argumentsWith parse (case rest of [] \<Rightarrow> None | p # others \<Rightarrow> Some p) s = (Inr args, s')"
  shows "tailStepWith parse force lib base (JArr (JStr name # rest)) current s
           = run force (tailMethodFn args) s'"
  using assms by (simp add: tailStepWith_def)

lemma assignPropertyWith_error:
  "parse (snd property) s = (Inl e, s')
     \<Longrightarrow> assignPropertyWith parse property result s = (Inl e, s')"
  by (simp add: assignPropertyWith_def)

text \<open>
  \<open>callsWith force lib root (node, st) (child, st1)\<close>: while it resolves \<open>node\<close> from
  the state \<open>st\<close>, \<^verbatim>\<open>parseNode\<close> calls itself on \<open>child\<close> in the state \<open>st1\<close>.
\<close>

inductive callsWith ::
  "'v thunks \<Rightarrow> 'v library \<Rightarrow> ZodJsonRoot \<Rightarrow> json \<times> 'v resolver_state
     \<Rightarrow> json \<times> 'v resolver_state \<Rightarrow> bool"
  for force :: "'v thunks" and lib :: "'v library" and root :: ZodJsonRoot where
  item:
    "map_items (\<lambda>item. parseNodeWith force lib root item) (take i items) st = (Inr vs, st1) \<Longrightarrow>
     i < length items \<Longrightarrow>
     callsWith force lib root (JArr items, st) (items ! i, st1)"
| params:
    "\<not> isRef node \<Longrightarrow> \<not> isFunction node \<Longrightarrow> isZodJson node \<Longrightarrow>
     map_of node ''method'' = Some (JStr base) \<Longrightarrow>
     callable (get (lib_z lib) base) = Some methodFn \<Longrightarrow>
     map_of node ''params'' = Some p \<Longrightarrow> truthy p \<Longrightarrow>
     callsWith force lib root (JObj node, st) (p, st)"
| tail_params:
    "\<not> isRef node \<Longrightarrow> \<not> isFunction node \<Longrightarrow> isZodJson node \<Longrightarrow>
     map_of node ''method'' = Some (JStr base) \<Longrightarrow>
     callable (get (lib_z lib) base) = Some methodFn \<Longrightarrow>
     argumentsWith (\<lambda>p. parseNodeWith force lib root p) (map_of node ''params'') st
       = (Inr args, st1) \<Longrightarrow>
     run force (methodFn args) st1 = (Inr made, st2) \<Longrightarrow>
     map_of node ''tail'' = Some (JArr tail) \<Longrightarrow> i < length tail \<Longrightarrow>
     for_each (tailStepWith (\<lambda>p. parseNodeWith force lib root p) force lib base)
       (take i tail) made st2 = (Inr current, st3) \<Longrightarrow>
     tail ! i = JArr (JStr name # p # others) \<Longrightarrow>
     current \<noteq> VUndefined \<Longrightarrow> current \<noteq> VNull \<Longrightarrow>
     lib_member lib current name = Some tailMethodFn \<Longrightarrow> truthy p \<Longrightarrow>
     callsWith force lib root (JObj node, st) (p, st3)"
| property:
    "\<not> isRef node \<Longrightarrow> \<not> isFunction node \<Longrightarrow> \<not> isZodJson node \<Longrightarrow>
     i < length node \<Longrightarrow>
     for_each (assignPropertyWith (\<lambda>child. parseNodeWith force lib root child))
       (take i node) (None, []) st = (Inr result, st1) \<Longrightarrow>
     callsWith force lib root (JObj node, st) (snd (node ! i), st1)"

text \<open>
  \<open>invokes force lib root (node, st) (call, st1)\<close>: while it resolves \<open>node\<close> from the
  state \<open>st\<close>, \<^verbatim>\<open>parseNode\<close> makes the library call \<open>call\<close> in the state \<open>st1\<close>,
  at line 131 or at line 141.
\<close>

inductive invokes ::
  "'v thunks \<Rightarrow> 'v library \<Rightarrow> ZodJsonRoot \<Rightarrow> json \<times> 'v resolver_state
     \<Rightarrow> 'v effect \<times> 'v resolver_state \<Rightarrow> bool"
  for force :: "'v thunks" and lib :: "'v library" and root :: ZodJsonRoot where
  constructor:
    "\<not> isRef node \<Longrightarrow> \<not> isFunction node \<Longrightarrow> isZodJson node \<Longrightarrow>
     map_of node ''method'' = Some (JStr base) \<Longrightarrow>
     callable (get (lib_z lib) base) = Some methodFn \<Longrightarrow>
     argumentsWith (\<lambda>p. parseNodeWith force lib root p) (map_of node ''params'') st
       = (Inr args, st1) \<Longrightarrow>
     invokes force lib root (JObj node, st) (methodFn args, st1)"
| chained:
    "\<not> isRef node \<Longrightarrow> \<not> isFunction node \<Longrightarrow> isZodJson node \<Longrightarrow>
     map_of node ''method'' = Some (JStr base) \<Longrightarrow>
     callable (get (lib_z lib) base) = Some methodFn \<Longrightarrow>
     argumentsWith (\<lambda>p. parseNodeWith force lib root p) (map_of node ''params'') st
       = (Inr args, st1) \<Longrightarrow>
     run force (methodFn args) st1 = (Inr made, st2) \<Longrightarrow>
     map_of node ''tail'' = Some (JArr tail) \<Longrightarrow> i < length tail \<Longrightarrow>
     for_each (tailStepWith (\<lambda>p. parseNodeWith force lib root p) force lib base)
       (take i tail) made st2 = (Inr current, st3) \<Longrightarrow>
     tail ! i = JArr (JStr name # rest) \<Longrightarrow>
     current \<noteq> VUndefined \<Longrightarrow> current \<noteq> VNull \<Longrightarrow>
     lib_member lib current name = Some tailMethodFn \<Longrightarrow>
     argumentsWith (\<lambda>p. parseNodeWith force lib root p)
       (case rest of [] \<Rightarrow> None | p # others \<Rightarrow> Some p) st3 = (Inr tailArgs, st4) \<Longrightarrow>
     invokes force lib root (JObj node, st) (tailMethodFn tailArgs, st4)"

lemma callsWith_error:
  assumes "callsWith force lib root (node, st) (child, st1)"
    and error: "parseNodeWith force lib root child st1 = (Inl e, st2)"
  shows "parseNodeWith force lib root node st = (Inl e, st2)"
  using assms(1)
proof cases
  case (item i items vs)
  then have "map_items (\<lambda>item. parseNodeWith force lib root item) items st = (Inl e, st2)"
    using error by (intro map_items_error [where i = i and vs = vs and ?s1.0 = st1]) simp_all
  with item show ?thesis by simp
next
  case (params node' base methodFn)
  then have "argumentsWith (\<lambda>p. parseNodeWith force lib root p) (map_of node' ''params'') st
      = (Inl e, st2)"
    using error by (simp add: argumentsWith_error)
  with params show ?thesis by simp
next
  case (tail_params node' base methodFn args st0 made st3 tail i current name others tailMethodFn)
  have "tailStepWith (\<lambda>p. parseNodeWith force lib root p) force lib base (tail ! i) current st1
      = (Inl e, st2)"
    using tail_params error by (simp add: tailStepWith_error)
  then have "for_each (tailStepWith (\<lambda>p. parseNodeWith force lib root p) force lib base)
      tail made st3 = (Inl e, st2)"
    using tail_params
    by (intro for_each_error [where i = i and ?r1.0 = current and ?s1.0 = st1]) simp_all
  with tail_params show ?thesis by simp
next
  case (property node' i result)
  have "assignPropertyWith (\<lambda>child. parseNodeWith force lib root child) (node' ! i) result st1
      = (Inl e, st2)"
    using property error by (simp add: assignPropertyWith_error)
  then have "for_each (assignPropertyWith (\<lambda>child. parseNodeWith force lib root child))
      node' (None, []) st = (Inl e, st2)"
    using property
    by (intro for_each_error [where i = i and ?r1.0 = result and ?s1.0 = st1]) simp_all
  with property show ?thesis by simp
qed

lemma reachesWith_error:
  assumes "(callsWith force lib root)\<^sup>*\<^sup>* (node, st) (child, st1)"
    and "parseNodeWith force lib root child st1 = (Inl e, st2)"
  shows "parseNodeWith force lib root node st = (Inl e, st2)"
  using assms
proof (induction "(node, st)" arbitrary: node st rule: converse_rtranclp_induct)
  case base
  then show ?case by simp
next
  case (step mid)
  obtain n' s' where mid: "mid = (n', s')" by (cases mid)
  have "parseNodeWith force lib root n' s' = (Inl e, st2)"
    using step mid by simp
  then show ?case
    using step(1) mid callsWith_error by blast
qed

lemma invokes_error:
  assumes "invokes force lib root (node, st) (call, st1)"
    and error: "run force call st1 = (Inl e, st2)"
  shows "parseNodeWith force lib root node st = (Inl e, st2)"
  using assms(1)
proof cases
  case (constructor node' base methodFn args)
  then show ?thesis using error by simp
next
  case (chained node' base methodFn args st0 made st3 tail i current st4 name rest tailMethodFn
      tailArgs)
  have "tailStepWith (\<lambda>p. parseNodeWith force lib root p) force lib base (tail ! i) current st4
      = (Inl e, st2)"
    using chained error by (simp add: tailStepWith_call)
  then have "for_each (tailStepWith (\<lambda>p. parseNodeWith force lib root p) force lib base)
      tail made st3 = (Inl e, st2)"
    using chained
    by (intro for_each_error [where i = i and ?r1.0 = current and ?s1.0 = st4]) simp_all
  with chained show ?thesis by simp
qed


text \<open>
  C2, as the code has it, for every library.  What is raised while \<^verbatim>\<open>fromZodJson\<close> runs
  is the outcome of the call, with the cache as it was then, and nothing partial is returned:
  an error that \<^verbatim>\<open>parseNode\<close> raises on a node it reaches from \<^verbatim>\<open>root.schema\<close> through
  array items, parameters, tail parameters and mapping values, at any depth; what a call of
  the library on such a node throws; and what the thunk of a handle throws when such a call
  forces the handle and passes on what it threw.  \<^verbatim>\<open>parseNode\<close> itself does not enter the
  body of a definition: when \<^verbatim>\<open>root.schema\<close> is a reference that passes the existence
  check, the call returns a lazy handle, whatever the definition is and whatever the library
  does; and a call that settles without a handle being forced, which is a call that settles
  with the bound 0, has the same outcome for every document with the same schema in which the
  same ids pass the existence check.
\<close>

theorem errors_unwind_the_call:
  "((callsWith (forcing fuel lib root) lib root)\<^sup>*\<^sup>* (schema root, empty_state) (child, st)
      \<and> parseNodeWith (forcing fuel lib root) lib root child st = (Inl e, st') \<longrightarrow>
      fromZodJsonWith fuel lib root = (Inl e, st')) \<and>
   ((callsWith (forcing fuel lib root) lib root)\<^sup>*\<^sup>* (schema root, empty_state) (child, st)
      \<and> invokes (forcing fuel lib root) lib root (child, st) (call, st1)
      \<and> run (forcing fuel lib root) call st1 = (Inl e, st') \<longrightarrow>
      fromZodJsonWith fuel lib root = (Inl e, st')) \<and>
   ((callsWith (forcing (Suc fuel) lib root) lib root)\<^sup>*\<^sup>* (schema root, empty_state) (child, st)
      \<and> invokes (forcing (Suc fuel) lib root) lib root (child, st) (Forces refId k, st1)
      \<and> lazyThunkWith (forcing fuel lib root) lib root refId st1 = (Inl e, st')
      \<and> k (Inl e) = Raises e \<longrightarrow>
      fromZodJsonWith (Suc fuel) lib root = (Inl e, st')) \<and>
   (schema root = JObj node \<and> isRef node \<and> map_of node ''id'' = Some (JStr refId)
      \<and> definitionFound root refId \<longrightarrow>
      fromZodJsonWith fuel lib root
        = (Inr (VLazy 0 refId), \<lparr>definitionCache = [refId \<mapsto> VLazy 0 refId], lazyCount = 1\<rparr>)) \<and>
   (fromZodJsonWith 0 lib root = (r, st') \<and> r \<noteq> Inl OutOfFuel \<and> schema root' = schema root
      \<and> (\<forall>refId. definitionFound root' refId = definitionFound root refId) \<longrightarrow>
      fromZodJsonWith fuel lib root' = (r, st'))"
proof (intro conjI impI)
  assume "(callsWith (forcing fuel lib root) lib root)\<^sup>*\<^sup>* (schema root, empty_state) (child, st)
      \<and> parseNodeWith (forcing fuel lib root) lib root child st = (Inl e, st')"
  then have "parseNodeWith (forcing fuel lib root) lib root (schema root) empty_state = (Inl e, st')"
    using reachesWith_error by blast
  then show "fromZodJsonWith fuel lib root = (Inl e, st')"
    by (simp add: fromZodJsonWith_def)
next
  assume a: "(callsWith (forcing fuel lib root) lib root)\<^sup>*\<^sup>* (schema root, empty_state) (child, st)
      \<and> invokes (forcing fuel lib root) lib root (child, st) (call, st1)
      \<and> run (forcing fuel lib root) call st1 = (Inl e, st')"
  then have "parseNodeWith (forcing fuel lib root) lib root child st = (Inl e, st')"
    using invokes_error by blast
  with a have "parseNodeWith (forcing fuel lib root) lib root (schema root) empty_state = (Inl e, st')"
    using reachesWith_error by blast
  then show "fromZodJsonWith fuel lib root = (Inl e, st')"
    by (simp add: fromZodJsonWith_def)
next
  assume a: "(callsWith (forcing (Suc fuel) lib root) lib root)\<^sup>*\<^sup>* (schema root, empty_state) (child, st)
      \<and> invokes (forcing (Suc fuel) lib root) lib root (child, st) (Forces refId k, st1)
      \<and> lazyThunkWith (forcing fuel lib root) lib root refId st1 = (Inl e, st')
      \<and> k (Inl e) = Raises e"
  then have "run (forcing (Suc fuel) lib root) (Forces refId k) st1 = (Inl e, st')"
    by simp
  with a have "parseNodeWith (forcing (Suc fuel) lib root) lib root child st = (Inl e, st')"
    using invokes_error by blast
  with a have "parseNodeWith (forcing (Suc fuel) lib root) lib root (schema root) empty_state
      = (Inl e, st')"
    using reachesWith_error by blast
  then show "fromZodJsonWith (Suc fuel) lib root = (Inl e, st')"
    by (simp add: fromZodJsonWith_def)
next
  assume "schema root = JObj node \<and> isRef node \<and> map_of node ''id'' = Some (JStr refId)
      \<and> definitionFound root refId"
  then show "fromZodJsonWith fuel lib root
        = (Inr (VLazy 0 refId), \<lparr>definitionCache = [refId \<mapsto> VLazy 0 refId], lazyCount = 1\<rparr>)"
    by (simp add: fromZodJsonWith_def empty_state_def referenceBranch_def resolver_outcome_def
        Let_def)
next
  assume "fromZodJsonWith 0 lib root = (r, st') \<and> r \<noteq> Inl OutOfFuel \<and> schema root' = schema root
      \<and> (\<forall>refId. definitionFound root' refId = definitionFound root refId)"
  then show "fromZodJsonWith fuel lib root' = (r, st')"
    using unforced_definitions [of lib root r st' root' fuel] by simp
qed

text \<open>
  A document whose only definition names a method that the library does not have, reached
  through the reference that is its \<^verbatim>\<open>schema\<close>.  \<^verbatim>\<open>fromZodJson\<close> returns a lazy handle;
  the error appears when the thunk of the handle is run.
\<close>

definition broken_root :: ZodJsonRoot where
  "broken_root =
     \<lparr>definitions = Some
        [(''Broken'', JObj [(''_schema'', JStr ''json-zod''), (''method'', JStr ''notAMethod'')])],
      schema = reference ''Broken''\<rparr>"

definition broken_state :: "sample resolver_state" where
  "broken_state = \<lparr>definitionCache = [''Broken'' \<mapsto> VLazy 0 ''Broken''], lazyCount = 1\<rparr>"

lemmas library_eval = isRef_def isFunction_def isZodJson_def sample_library_def get_def
  callable_def sample_member_def returning_def sample_parse_def argumentsWith_def tailStepWith_def
  resolver_outcome_def referenceBranch_def definitionFound_def js_get_def lazyThunkWith_def
  fromZodJsonWith_def empty_state_def Let_def

text \<open>
  C2 as stated fails for a definition body reached only through a reference: \<^verbatim>\<open>fromZodJson\<close>
  succeeds on \<open>broken_root\<close>, and the unknown method is reported when the thunk of the
  handle is run afterwards.
\<close>

theorem malformed_definition_counterexample:
  "fromZodJsonWith 1 sample_library broken_root = (Inr (VLazy 0 ''Broken''), broken_state) \<and>
   forcing 1 sample_library broken_root ''Broken'' broken_state
     = (Inl (Resolver (UnknownMethod ''notAMethod'')), broken_state)"
  by (simp add: library_eval broken_root_def broken_state_def reference_def)

text \<open>An array node whose parameter is a node with the number 5 for its method.\<close>

definition nested_root :: ZodJsonRoot where
  "nested_root =
     \<lparr>definitions = None,
      schema = JObj [(''_schema'', JStr ''json-zod''), (''method'', JStr ''array''),
                     (''params'', JArr [JObj [(''_schema'', JStr ''json-zod''),
                                               (''method'', JNum 5)]])]\<rparr>"

text \<open>A node whose method is \<^verbatim>\<open>Function.prototype.call\<close>, reached through \<^verbatim>\<open>z.string\<close>.\<close>

definition detached_root :: ZodJsonRoot where
  "detached_root =
     \<lparr>definitions = None,
      schema = JObj [(''_schema'', JStr ''json-zod''), (''method'', JStr ''string.call'')]\<rparr>"

text \<open>
  An array of the broken definition, with \<^verbatim>\<open>parse\<close> in its tail: the chained call looks
  into the array \<^verbatim>\<open>[1]\<close>, forces the handle of its element, and the thunk fails inside
  \<^verbatim>\<open>fromZodJson\<close>.
\<close>

definition forced_root :: ZodJsonRoot where
  "forced_root =
     \<lparr>definitions = Some
        [(''Broken'', JObj [(''_schema'', JStr ''json-zod''), (''method'', JStr ''notAMethod'')])],
      schema = JObj [(''_schema'', JStr ''json-zod''), (''method'', JStr ''array''),
                     (''params'', JArr [reference ''Broken'']),
                     (''tail'', JArr [JArr [JStr ''parse'', JArr [JArr [JNum 1]]]])]\<rparr>"

theorem errors_unwind_the_call_witness:
  "fromZodJsonWith 1 sample_library nested_root
     = (Inl (Resolver (InvalidMethod ''number'')), empty_state) \<and>
   fromZodJsonWith 1 sample_library detached_root = (Inl (Uncaught ''TypeError''), empty_state) \<and>
   fromZodJsonWith 1 sample_library forced_root
     = (Inl (Resolver (UnknownMethod ''notAMethod'')), broken_state) \<and>
   fromZodJsonWith 1 sample_library broken_root = (Inr (VLazy 0 ''Broken''), broken_state) \<and>
   fromZodJsonWith 1 sample_library (broken_root\<lparr>schema := array_of ''Broken''\<rparr>)
     = (Inr (VInst (SArray (SLazy 0 ''Broken''))), broken_state)"
proof -
  let ?force = "forcing (Suc 0) sample_library"
  let ?bad = "JObj [(''_schema'', JStr ''json-zod''), (''method'', JNum 5)]"
  let ?node = "[(''_schema'', JStr ''json-zod''), (''method'', JStr ''array''),
                (''params'', JArr [?bad])]"
  have 1: "callsWith (?force nested_root) sample_library nested_root
      (JObj ?node, empty_state) (JArr [?bad], empty_state)"
    by (rule callsWith.params [where base = "''array''" and methodFn = "returning sample_array"])
       (simp_all add: isRef_def isFunction_def isZodJson_def sample_library_def get_def
          callable_def)
  have 2: "callsWith (?force nested_root) sample_library nested_root
      (JArr [?bad], empty_state) ([?bad] ! 0, empty_state)"
    by (rule callsWith.item [where vs = "[]"]) simp_all
  have reach: "(callsWith (?force nested_root) sample_library nested_root)\<^sup>*\<^sup>*
      (schema nested_root, empty_state) (?bad, empty_state)"
    using 1 2 by (simp add: nested_root_def)
  have bad: "parseNodeWith (?force nested_root) sample_library nested_root ?bad empty_state
      = (Inl (Resolver (InvalidMethod ''number'')), empty_state)"
    by (simp add: isRef_def isFunction_def isZodJson_def)
  have nested: "fromZodJsonWith (Suc 0) sample_library nested_root
      = (Inl (Resolver (InvalidMethod ''number'')), empty_state)"
    using errors_unwind_the_call [THEN conjunct1, rule_format, OF conjI, OF reach bad] .
  let ?detached = "[(''_schema'', JStr ''json-zod''), (''method'', JStr ''string.call'')]"
  have 3: "invokes (?force detached_root) sample_library detached_root
      (JObj ?detached, empty_state) ((\<lambda>vs. Raises (Uncaught ''TypeError'')) [], empty_state)"
    by (rule invokes.constructor [where base = "''string.call''"])
       (simp_all add: isRef_def isFunction_def isZodJson_def sample_library_def get_def
          callable_def argumentsWith_def)
  have reach3: "(callsWith (?force detached_root) sample_library detached_root)\<^sup>*\<^sup>*
      (schema detached_root, empty_state) (JObj ?detached, empty_state)"
    by (simp add: detached_root_def)
  have raised: "run (?force detached_root) ((\<lambda>vs. Raises (Uncaught ''TypeError'')) []) empty_state
      = (Inl (Uncaught ''TypeError''), empty_state)"
    by simp
  have detached: "fromZodJsonWith (Suc 0) sample_library detached_root
      = (Inl (Uncaught ''TypeError''), empty_state)"
    using errors_unwind_the_call [THEN conjunct2, THEN conjunct1, rule_format,
        OF conjI [OF reach3 conjI [OF 3 raised]]] .
  let ?array = "[(''_schema'', JStr ''json-zod''), (''method'', JStr ''array''),
                 (''params'', JArr [reference ''Broken'']),
                 (''tail'', JArr [JArr [JStr ''parse'', JArr [JArr [JNum 1]]]])]"
  let ?k = "\<lambda>r. case r of
                  Inl e \<Rightarrow> Raises e
                | Inr inner \<Rightarrow> if list_all (accepts (as_schema inner)) [VNum 1]
                               then Returns (VArr [VNum 1])
                               else Raises (Uncaught ''ZodError'')"
  have call: "sample_parse (SArray (SLazy 0 ''Broken'')) [VArr [VNum 1]] = Forces ''Broken'' ?k"
    by (simp add: sample_parse_def fun_eq_iff split: sum.splits)
  have "invokes (?force forced_root) sample_library forced_root
      (JObj ?array, empty_state)
      (sample_parse (SArray (SLazy 0 ''Broken'')) [VArr [VNum 1]], broken_state)"
    by (rule invokes.chained [where base = "''array''"
          and methodFn = "returning sample_array" and args = "[VLazy 0 ''Broken'']"
          and ?st1.0 = broken_state and ?st2.0 = broken_state
          and made = "VInst (SArray (SLazy 0 ''Broken''))"
          and tail = "[JArr [JStr ''parse'', JArr [JArr [JNum 1]]]]" and i = 0
          and current = "VInst (SArray (SLazy 0 ''Broken''))" and ?st3.0 = broken_state
          and name = "''parse''" and rest = "[JArr [JArr [JNum 1]]]"])
       (simp_all add: isRef_def isFunction_def isZodJson_def sample_library_def get_def
          callable_def returning_def argumentsWith_def resolver_outcome_def referenceBranch_def
          definitionFound_def js_get_def empty_state_def Let_def forced_root_def reference_def
          broken_state_def)
  then have 4: "invokes (?force forced_root) sample_library forced_root
      (JObj ?array, empty_state) (Forces ''Broken'' ?k, broken_state)"
    by (simp only: call)
  have reach4: "(callsWith (?force forced_root) sample_library forced_root)\<^sup>*\<^sup>*
      (schema forced_root, empty_state) (JObj ?array, empty_state)"
    by (simp add: forced_root_def)
  have thunk: "lazyThunkWith (forcing 0 sample_library forced_root) sample_library forced_root
      ''Broken'' broken_state = (Inl (Resolver (UnknownMethod ''notAMethod'')), broken_state)"
    by (simp add: lazyThunkWith_def forced_root_def js_get_def isRef_def isFunction_def
        isZodJson_def sample_library_def get_def callable_def)
  have passed: "?k (Inl (Resolver (UnknownMethod ''notAMethod'')))
      = Raises (Resolver (UnknownMethod ''notAMethod''))"
    by simp
  have forced: "fromZodJsonWith (Suc 0) sample_library forced_root
      = (Inl (Resolver (UnknownMethod ''notAMethod'')), broken_state)"
    using errors_unwind_the_call [THEN conjunct2, THEN conjunct2, THEN conjunct1, rule_format,
        OF conjI [OF reach4 conjI [OF 4 conjI [OF thunk passed]]]] .
  have lazy: "fromZodJsonWith (Suc 0) sample_library broken_root
      = (Inr (VLazy 0 ''Broken''), broken_state)"
    using errors_unwind_the_call [THEN conjunct2, THEN conjunct2, THEN conjunct2, THEN conjunct1,
        rule_format,
        where root = broken_root and node = "[(''_is'', JStr ''ref''), (''id'', JStr ''Broken'')]"
        and refId = "''Broken''" and fuel = "Suc 0" and lib = sample_library]
    by (simp add: broken_root_def reference_def isRef_def definitionFound_def js_get_def
        broken_state_def)
  let ?sound = "\<lparr>definitions = Some [(''Broken'', string_with_tail [])],
                 schema = array_of ''Broken''\<rparr>"
  let ?broken = "broken_root\<lparr>schema := array_of ''Broken''\<rparr>"
  have sound: "fromZodJsonWith 0 sample_library ?sound
      = (Inr (VInst (SArray (SLazy 0 ''Broken''))), broken_state)"
    by (simp add: library_eval array_of_def reference_def broken_state_def string_with_tail_def)
  have same: "\<forall>refId. definitionFound ?broken refId = definitionFound ?sound refId"
    by (simp add: definitionFound_def js_get_def broken_root_def string_with_tail_def)
  have unforced: "fromZodJsonWith (Suc 0) sample_library ?broken
      = (Inr (VInst (SArray (SLazy 0 ''Broken''))), broken_state)"
    using errors_unwind_the_call [THEN conjunct2, THEN conjunct2, THEN conjunct2, THEN conjunct2,
        rule_format, where root = ?sound and root' = ?broken and lib = sample_library
        and fuel = "Suc 0"] sound same
    by simp
  show ?thesis
    using nested detached forced lazy unforced by simp
qed

text \<open>
  A node need not give a validator: with \<^verbatim>\<open>parse\<close> in the tail of a string node,
  \<^verbatim>\<open>fromZodJson\<close> returns the string that was parsed.
\<close>

lemma library_calls:
  "fromZodJsonWith 1 sample_library
     \<lparr>definitions = None, schema = string_with_tail [JArr [JStr ''parse'', JArr [JStr ''hello'']]]\<rparr>
     = (Inr (VStr ''hello''), empty_state)"
  by (simp add: library_eval string_with_tail_def)

subsection \<open>Documents of the declared types\<close>

text \<open>
  The documents of the declared types (\<^verbatim>\<open>ZodJsonParam\<close> of \<^verbatim>\<open>types.ts\<close>): a reference has
  a string \<^verbatim>\<open>id\<close>, a function a string \<^verbatim>\<open>code\<close>; the \<^verbatim>\<open>params\<close> of a node, when
  present, are an array; an entry of its \<^verbatim>\<open>tail\<close> is a method name, alone or followed by an
  array of parameters; and no plain mapping has the key \<^verbatim>\<open>__proto__\<close>.  The \<^verbatim>\<open>method\<close>
  of a node is not constrained: the resolver checks it.
\<close>

fun params_typed :: "(json \<Rightarrow> bool) \<Rightarrow> json option \<Rightarrow> bool" where
  "params_typed typed None = True"
| "params_typed typed (Some (JArr ps)) = typed (JArr ps)"
| "params_typed typed (Some p) = False"

fun entry_typed :: "(json \<Rightarrow> bool) \<Rightarrow> json \<Rightarrow> bool" where
  "entry_typed typed (JArr [JStr name]) = True"
| "entry_typed typed (JArr (JStr name # JArr ps # others)) = typed (JArr ps)"
| "entry_typed typed entry = False"

lemma params_typed_cong [fundef_cong]:
  "p = q \<Longrightarrow> (\<And>params. q = Some params \<Longrightarrow> f params = g params)
     \<Longrightarrow> params_typed f p = params_typed g q"
  by (cases "(f, q)" rule: params_typed.cases) auto

lemma entry_typed_cong [fundef_cong]:
  "entry = entry' \<Longrightarrow> (\<And>name p others. entry' = JArr (name # p # others) \<Longrightarrow> f p = g p)
     \<Longrightarrow> entry_typed f entry = entry_typed g entry'"
  by (cases "(f, entry')" rule: entry_typed.cases) auto

lemma params_typed_cases:
  "params_typed typed p \<Longrightarrow> p = None \<or> (\<exists>ps. p = Some (JArr ps) \<and> typed (JArr ps))"
  by (cases "(typed, p)" rule: params_typed.cases) auto

lemma entry_typed_cases:
  "entry_typed typed entry \<Longrightarrow>
     (\<exists>name. entry = JArr [JStr name]) \<or>
     (\<exists>name ps others. entry = JArr (JStr name # JArr ps # others) \<and> typed (JArr ps))"
  by (cases "(typed, entry)" rule: entry_typed.cases) auto

function well_typed :: "json \<Rightarrow> bool" where
  "well_typed JNull = True"
| "well_typed (JBool b) = True"
| "well_typed (JNum n) = True"
| "well_typed (JStr s) = True"
| "well_typed (JArr items) = (\<forall>item \<in> set items. well_typed item)"
| "well_typed (JObj node) =
     (if isRef node then (case map_of node ''id'' of Some (JStr refId) \<Rightarrow> True | _ \<Rightarrow> False)
      else if isFunction node then
        (case map_of node ''code'' of Some (JStr code) \<Rightarrow> True | _ \<Rightarrow> False)
      else if isZodJson node then
        params_typed (\<lambda>params. well_typed params) (map_of node ''params'') \<and>
        (case map_of node ''tail'' of
           Some (JArr tail) \<Rightarrow> \<forall>entry \<in> set tail. entry_typed (\<lambda>p. well_typed p) entry
         | _ \<Rightarrow> True)
      else ''__proto__'' \<notin> fst ` set node \<and> (\<forall>property \<in> set node. well_typed (snd property)))"
  by pat_completeness auto
termination
  apply (relation "measure size")
      apply simp
  subgoal by (simp add: size_member)
  subgoal by (auto dest: size_lookup)
  subgoal by (auto intro: size_tail_param)
  subgoal by (auto dest: size_property)
  done

text \<open>
  On such a document \<open>parseNode\<close> stays inside the part of JavaScript that the model
  covers.
\<close>

lemma for_each_no_error:
  assumes "\<And>x a t y t'. x \<in> set xs \<Longrightarrow> I a \<Longrightarrow> body x a t = (y, t')
             \<Longrightarrow> y \<noteq> Inl e \<and> (\<forall>a'. y = Inr a' \<longrightarrow> I a')"
  shows "I r \<Longrightarrow> for_each body xs r s = (y, s') \<Longrightarrow> y \<noteq> Inl e"
  using assms
proof (induction xs arbitrary: r s)
  case Nil
  then show ?case by auto
next
  case (Cons x xs)
  obtain y1 s1 where head: "body x r s = (y1, s1)" by (cases "body x r s")
  have 1: "y1 \<noteq> Inl e \<and> (\<forall>a'. y1 = Inr a' \<longrightarrow> I a')"
    using Cons.prems(3) [of x r s y1 s1] Cons.prems(1) head by simp
  show ?case
  proof (cases y1)
    case (Inl e')
    with head Cons.prems(2) 1 show ?thesis by auto
  next
    case (Inr r')
    then have rest: "for_each body xs r' s1 = (y, s')"
      using head Cons.prems(2) by simp
    have inv: "I r'" using 1 Inr by simp
    show ?thesis
    proof (rule Cons.IH [OF inv rest])
      fix x' a t y t'
      assume "x' \<in> set xs" "I a" "body x' a t = (y, t')"
      then show "y \<noteq> Inl e \<and> (\<forall>a'. y = Inr a' \<longrightarrow> I a')"
        using Cons.prems(3) [of x' a t y t'] by simp
    qed
  qed
qed

lemma map_items_no_error:
  assumes "\<And>x t y t'. x \<in> set xs \<Longrightarrow> f x t = (y, t') \<Longrightarrow> y \<noteq> Inl e"
  shows "map_items f xs s = (y, s') \<Longrightarrow> y \<noteq> Inl e"
  using assms
proof (induction xs arbitrary: s y s')
  case Nil
  then show ?case by auto
next
  case (Cons x xs)
  obtain y1 s1 where head: "f x s = (y1, s1)" by (cases "f x s")
  have 1: "y1 \<noteq> Inl e"
    using Cons.prems(2) [of x s y1 s1] head by simp
  obtain y2 s2 where rest: "map_items f xs s1 = (y2, s2)" by (cases "map_items f xs s1")
  have 2: "y2 \<noteq> Inl e"
  proof (rule Cons.IH [OF rest])
    fix x' t y t'
    assume "x' \<in> set xs" "f x' t = (y, t')"
    then show "y \<noteq> Inl e"
      using Cons.prems(2) [of x' t y t'] by simp
  qed
  show ?case
    using Cons.prems(1) head rest 1 2 by (auto split: sum.splits)
qed

lemma array_arguments_no_error:
  assumes "\<And>t y t'. parse (JArr ps) t = (y, t') \<Longrightarrow> y \<noteq> Inl OutsideModel \<and> (\<forall>v. y = Inr v \<longrightarrow> (\<exists>vs. v = VArr vs))"
    and "arguments parse (Some (JArr ps)) s = (y, s')"
  shows "y \<noteq> Inl OutsideModel"
proof -
  obtain y1 s1 where p: "parse (JArr ps) s = (y1, s1)" by (cases "parse (JArr ps) s")
  from assms(1) [OF p] assms(2) p show ?thesis
    by (cases y1) (auto simp: arguments_def)
qed

lemma parseNode_array_result:
  "parseNode env root (JArr items) st = (Inr v, st') \<Longrightarrow> \<exists>vs. v = VArr vs"
  by (auto split: prod.splits sum.splits)

lemma well_typed_modelled:
  "well_typed n \<Longrightarrow> parseNode env root n st = (y, st') \<Longrightarrow> y \<noteq> Inl OutsideModel"
proof (induction n arbitrary: st y st' rule: measure_induct_rule [of size])
  case (less n)
  show ?case
  proof (cases n)
    case (JArr items)
    obtain y1 s1 where items: "map_items (\<lambda>item. parseNode env root item) items st = (y1, s1)"
      by (cases "map_items (\<lambda>item. parseNode env root item) items st")
    have "y1 \<noteq> Inl OutsideModel"
    proof (rule map_items_no_error [OF _ items])
      fix x t y t'
      assume "x \<in> set items" "parseNode env root x t = (y, t')"
      then show "y \<noteq> Inl OutsideModel"
        using less.IH [of x t y t'] less.prems(1) JArr size_member [of x items size] by simp
    qed
    then show ?thesis
      using less.prems(2) JArr items by (auto split: sum.splits)
  next
    case (JObj node)
    have args: "y1 \<noteq> Inl OutsideModel"
      if "arguments (\<lambda>p. parseNode env root p) (Some (JArr ps)) t = (y1, t')"
        and "size (JArr ps) < size n" and "well_typed (JArr ps)" for ps t y1 t'
    proof (rule array_arguments_no_error [OF _ that(1)])
      fix u y u'
      assume "parseNode env root (JArr ps) u = (y, u')"
      then show "y \<noteq> Inl OutsideModel \<and> (\<forall>v. y = Inr v \<longrightarrow> (\<exists>vs. v = VArr vs))"
        using less.IH [OF that(2,3)] parseNode_array_result by blast
    qed
    consider (reference) "isRef node"
      | (compiled) "\<not> isRef node" "isFunction node"
      | (zodJson) "\<not> isRef node" "\<not> isFunction node" "isZodJson node"
      | (mapping) "\<not> isRef node" "\<not> isFunction node" "\<not> isZodJson node"
      by blast
    then show ?thesis
    proof cases
      case reference
      then show ?thesis
        using less.prems JObj
        by (auto simp: referenceBranch_def Let_def split: option.splits json.splits if_splits)
    next
      case compiled
      then show ?thesis
        using less.prems JObj
        by (auto simp: functionBranch_def split: option.splits json.splits if_splits)
    next
      case zodJson
      show ?thesis
      proof (cases "\<exists>m f. map_of node ''method'' = Some (JStr m) \<and> callable (get (z env) m) = Some f")
        case False
        then show ?thesis
          using less.prems(2) JObj zodJson by (auto split: option.splits json.splits)
      next
        case True
        then obtain m f where m: "map_of node ''method'' = Some (JStr m)"
          "callable (get (z env) m) = Some f" by blast
        obtain a s1 where a:
          "arguments (\<lambda>params. parseNode env root params) (map_of node ''params'') st = (a, s1)"
          by (cases "arguments (\<lambda>params. parseNode env root params) (map_of node ''params'') st")
        have 1: "a \<noteq> Inl OutsideModel"
        proof (cases "map_of node ''params''")
          case None
          with a show ?thesis by (auto simp: arguments_def)
        next
          case (Some p)
          have "params_typed (\<lambda>params. well_typed params) (Some p)"
            using less.prems(1) JObj zodJson Some by simp
          from params_typed_cases [OF this] obtain ps where ps: "p = JArr ps" "well_typed (JArr ps)"
            by auto
          have "size (JArr ps) < size n"
            using size_lookup [of node "''params''" p] Some ps(1) JObj by simp
          then show ?thesis
            using args [of ps st a s1] a Some ps by simp
        qed
        show ?thesis
        proof (cases "\<exists>ps tail. a = Inr ps \<and> map_of node ''tail'' = Some (JArr tail)")
          case False
          then show ?thesis
            using less.prems(2) JObj zodJson m a 1
            by (auto split: option.splits json.splits sum.splits)
        next
          case True
          then obtain ps tail where t: "a = Inr ps" "map_of node ''tail'' = Some (JArr tail)"
            by blast
          obtain final s2 where loop:
            "for_each (tailStep (\<lambda>p. parseNode env root p) env m) tail (f ps) s1 = (final, s2)"
            by (cases "for_each (tailStep (\<lambda>p. parseNode env root p) env m) tail (f ps) s1")
          have "final \<noteq> Inl OutsideModel"
          proof (rule for_each_no_error [where I = "\<lambda>a. True", OF _ _ loop])
            fix entry current u r u'
            assume entry: "entry \<in> set tail"
              and step: "tailStep (\<lambda>p. parseNode env root p) env m entry current u = (r, u')"
            have "entry_typed (\<lambda>p. well_typed p) entry"
              using less.prems(1) JObj zodJson t(2) entry by simp
            then have shape: "(\<exists>name. entry = JArr [JStr name]) \<or>
                (\<exists>name ps others. entry = JArr (JStr name # JArr ps # others) \<and> well_typed (JArr ps))"
              by (rule entry_typed_cases)
            then have "r \<noteq> Inl OutsideModel"
            proof
              assume "\<exists>name. entry = JArr [JStr name]"
              then show ?thesis
                using step by (auto simp: tailStep_def arguments_def split: option.splits)
            next
              assume "\<exists>name ps others. entry = JArr (JStr name # JArr ps # others) \<and> well_typed (JArr ps)"
              then obtain name ps' others where e: "entry = JArr (JStr name # JArr ps' # others)"
                "well_typed (JArr ps')" by blast
              have small: "size (JArr ps') < size n"
                using size_tail_param [OF t(2), of "JStr name" "JArr ps'" others] entry e(1) JObj
                by simp
              show ?thesis
              proof (cases "member env current name")
                case None
                then show ?thesis using step e(1) by (auto simp: tailStep_def)
              next
                case (Some g)
                obtain y1 u1 where y1:
                  "arguments (\<lambda>p. parseNode env root p) (Some (JArr ps')) u = (y1, u1)"
                  by (cases "arguments (\<lambda>p. parseNode env root p) (Some (JArr ps')) u")
                then have "y1 \<noteq> Inl OutsideModel"
                  using args [OF _ small e(2)] by blast
                then show ?thesis
                  using step e(1) Some y1 by (auto simp: tailStep_def split: sum.splits)
              qed
            qed
            then show "r \<noteq> Inl OutsideModel \<and> (\<forall>a'. r = Inr a' \<longrightarrow> True)"
              by simp
          qed simp
          then show ?thesis
            using less.prems(2) JObj zodJson m a t loop by (auto split: sum.splits)
        qed
      qed
    next
      case mapping
      obtain res s1 where loop:
        "for_each (assignProperty (\<lambda>child. parseNode env root child)) node (None, []) st = (res, s1)"
        by (cases "for_each (assignProperty (\<lambda>child. parseNode env root child)) node (None, []) st")
      have "res \<noteq> Inl OutsideModel"
      proof (rule for_each_no_error [where I = "\<lambda>result. fst result = None", OF _ _ loop])
        fix property result u r u'
        assume property: "property \<in> set node" and none: "fst result = None"
          and step: "assignProperty (\<lambda>child. parseNode env root child) property result u = (r, u')"
        obtain y1 u1 where child: "parseNode env root (snd property) u = (y1, u1)"
          by (cases "parseNode env root (snd property) u")
        have "well_typed (snd property)" and key: "fst property \<noteq> ''__proto__''"
          using less.prems(1) JObj mapping property by (auto simp: image_iff)
        then have "y1 \<noteq> Inl OutsideModel"
          using less.IH [of "snd property" u y1 u1] child size_property [OF property] JObj by simp
        then show "r \<noteq> Inl OutsideModel \<and> (\<forall>a'. r = Inr a' \<longrightarrow> fst a' = None)"
          using step child none key
          by (cases result; cases y1) (auto simp: assignProperty_def js_set_def)
      qed simp
      then show ?thesis
        using less.prems(2) JObj mapping loop by (auto split: sum.splits prod.splits)
    qed
  qed (use less.prems in auto)
qed

text \<open>
  The three documents of the error-handling tests of the repository, with the messages the
  tests expect.
\<close>

lemma error_handling_tests:
  \<open>map_sum thrown_message id
     (fst (fromZodJson sample_env \<lparr>definitions = None, schema = reference ''NonExistentDefinition''\<rparr>))
     = Inl ''[json-zod] Definition not found for ref: "NonExistentDefinition"''\<close>
  \<open>map_sum thrown_message id
     (fst (fromZodJson sample_env
        \<lparr>definitions = None,
         schema = JObj [(''_schema'', JStr ''json-zod''), (''method'', JStr ''unknownMethod'')]\<rparr>))
     = Inl ''[json-zod] Unknown Zod method: "z.unknownMethod"''\<close>
  \<open>map_sum thrown_message id
     (fst (fromZodJson sample_env
        \<lparr>definitions = None, schema = string_with_tail [JArr [JStr ''unknownTailMethod'']]\<rparr>))
     = Inl ''[json-zod] Unknown Zod tail method: ".unknownTailMethod()" on "z.string"''\<close>
  by (simp_all add: fromZodJson_def empty_state_def reference_def string_with_tail_def sample_eval
      referenceBranch_def definitionFound_def)

section \<open>The reverse conversion\<close>

















end
